theory Spec2Isabelle
  imports Complex_Main
begin

section \<open>Values, errors and the environment\<close>

text \<open>
  The cache of \<^verbatim>\<open>telegram/ext/utils/callbackdatacache.py\<close> stores arbitrary Python
  values as button payloads and tests them by truthiness. The model keeps the values the
  code can tell apart: \<^verbatim>\<open>None\<close>, booleans, integers, strings and the carried
  \<^verbatim>\<open>InvalidCallbackData\<close> exception object (with its \<^verbatim>\<open>callback_data\<close> attribute).
  One \<open>char\<close> stands for one character of a Python string.
\<close>

datatype pyval =
    PNone
  | PBool bool
  | PInt int
  | PStr string
  | InvalidCallbackData string

fun truthy :: "pyval \<Rightarrow> bool" where
  "truthy PNone = False"
| "truthy (PBool b) = b"
| "truthy (PInt n) = (n \<noteq> 0)"
| "truthy (PStr s) = (s \<noteq> [])"
| "truthy (InvalidCallbackData s) = True"

datatype error = KeyError | ValueError | TypeError | RuntimeError | AttributeError

text \<open>
  \<^verbatim>\<open>uuid4().hex\<close> and \<^verbatim>\<open>time.time()\<close> read the environment. The environment is a
  parameter: the n-th identifier and the n-th clock reading. The state counts how many of
  each have been drawn.
\<close>

record env =
  uuid4_hex :: "nat \<Rightarrow> string"
  time_time :: "nat \<Rightarrow> real"

section \<open>Python dictionaries\<close>

text \<open>
  A \<^verbatim>\<open>dict\<close> is an association list in insertion order: assigning to a key that is
  present replaces the value in place, assigning to a new key appends.
\<close>

type_synonym ('k, 'v) dict = "('k \<times> 'v) list"

definition dict_keys :: "('k, 'v) dict \<Rightarrow> 'k list" where
  "dict_keys d = map fst d"

definition dict_get :: "('k, 'v) dict \<Rightarrow> 'k \<Rightarrow> 'v option" where
  "dict_get d k = map_of d k"

fun dict_setitem :: "('k, 'v) dict \<Rightarrow> 'k \<Rightarrow> 'v \<Rightarrow> ('k, 'v) dict" where
  "dict_setitem [] k v = [(k, v)]"
| "dict_setitem (p # ps) k v = (if fst p = k then (k, v) # ps else p # dict_setitem ps k v)"

fun dict_delitem :: "('k, 'v) dict \<Rightarrow> 'k \<Rightarrow> ('k, 'v) dict" where
  "dict_delitem [] k = []"
| "dict_delitem (p # ps) k = (if fst p = k then ps else p # dict_delitem ps k)"

section \<open>The bounded store\<close>

text \<open>
  Both stores are \<^verbatim>\<open>cachetools.LRUCache(maxsize=maxsize)\<close>. The library keeps the items
  in a dictionary and the recency order in an ordered dictionary of keys, least recently
  used first; every item has size 1, so the current size is the number of items.
  Reading an item, also through \<^verbatim>\<open>pop\<close>, \<^verbatim>\<open>items()\<close> and \<^verbatim>\<open>values()\<close>, moves its key
  to the recent end.
\<close>

record 'v LRUCache =
  cache_maxsize :: int
  cache_data :: "(string, 'v) dict"
  cache_order :: "string list"

definition LRUCache_init :: "int \<Rightarrow> 'v LRUCache" where
  "LRUCache_init m = \<lparr>cache_maxsize = m, cache_data = [], cache_order = []\<rparr>"

definition lru_contains :: "'v LRUCache \<Rightarrow> string \<Rightarrow> bool" where
  "lru_contains c k = (k \<in> set (dict_keys (cache_data c)))"

definition lru_update :: "'v LRUCache \<Rightarrow> string \<Rightarrow> 'v LRUCache" where
  "lru_update c k = c\<lparr>cache_order := remove1 k (cache_order c) @ [k]\<rparr>"

definition lru_getitem :: "'v LRUCache \<Rightarrow> string \<Rightarrow> error + ('v \<times> 'v LRUCache)" where
  "lru_getitem c k =
     (case dict_get (cache_data c) k of
        None \<Rightarrow> Inl KeyError
      | Some v \<Rightarrow> Inr (v, lru_update c k))"

definition lru_delitem :: "'v LRUCache \<Rightarrow> string \<Rightarrow> error + 'v LRUCache" where
  "lru_delitem c k =
     (if \<not> lru_contains c k then Inl KeyError
      else if k \<notin> set (cache_order c) then Inl KeyError
      else Inr (c\<lparr>cache_data := dict_delitem (cache_data c) k,
                  cache_order := remove1 k (cache_order c)\<rparr>))"

definition lru_pop :: "'v LRUCache \<Rightarrow> string \<Rightarrow> error + ('v \<times> 'v LRUCache)" where
  "lru_pop c k =
     (if lru_contains c k then
        (case lru_getitem c k of
           Inl e \<Rightarrow> Inl e
         | Inr (v, c1) \<Rightarrow>
             (case lru_delitem c1 k of
                Inl e \<Rightarrow> Inl e
              | Inr c2 \<Rightarrow> Inr (v, c2)))
      else Inl KeyError)"

definition lru_popitem :: "'v LRUCache \<Rightarrow> error + ((string \<times> 'v) \<times> 'v LRUCache)" where
  "lru_popitem c =
     (case cache_order c of
        [] \<Rightarrow> Inl KeyError
      | k # _ \<Rightarrow>
          (case lru_pop c k of
             Inl e \<Rightarrow> Inl e
           | Inr (v, c') \<Rightarrow> Inr ((k, v), c')))"

lemma dict_delitem_shorter:
  "k \<in> set (dict_keys d) \<Longrightarrow> length (dict_delitem d k) < length d"
  by (induction d) (auto simp: dict_keys_def)

lemma lru_pop_shorter:
  "lru_pop c k = Inr (v, c') \<Longrightarrow> length (cache_data c') < length (cache_data c)"
  by (auto simp: lru_pop_def lru_getitem_def lru_delitem_def lru_update_def lru_contains_def
      dict_delitem_shorter split: if_splits option.splits sum.splits)

lemma lru_popitem_shorter:
  "lru_popitem c = Inr (kv, c') \<Longrightarrow> length (cache_data c') < length (cache_data c)"
  by (auto simp: lru_popitem_def lru_pop_shorter split: list.splits sum.splits)

text \<open>
  The eviction loop of \<^verbatim>\<open>Cache.__setitem__\<close>:
  \<^verbatim>\<open>while self.__currsize + size > maxsize: self.popitem()\<close>.
\<close>

function lru_make_room :: "'v LRUCache \<Rightarrow> error + 'v LRUCache" where
  "lru_make_room c =
     (if int (length (cache_data c)) + 1 > cache_maxsize c then
        (case lru_popitem c of
           Inl e \<Rightarrow> Inl e
         | Inr (kv, c') \<Rightarrow> lru_make_room c')
      else Inr c)"
  by pat_completeness auto
termination
  by (relation "measure (\<lambda>c. length (cache_data c))") (auto simp: lru_popitem_shorter)

declare lru_make_room.simps [simp del]

definition lru_setitem :: "'v LRUCache \<Rightarrow> string \<Rightarrow> 'v \<Rightarrow> error + 'v LRUCache" where
  "lru_setitem c k v =
     (if 1 > cache_maxsize c then Inl ValueError
      else
        (case (if \<not> lru_contains c k then lru_make_room c else Inr c) of
           Inl e \<Rightarrow> Inl e
         | Inr c1 \<Rightarrow>
             Inr (lru_update (c1\<lparr>cache_data := dict_setitem (cache_data c1) k v\<rparr>) k)))"

text \<open>
  \<^verbatim>\<open>MutableMapping.clear\<close>: \<^verbatim>\<open>popitem\<close> until it raises \<^verbatim>\<open>KeyError\<close>.
\<close>

function lru_clear :: "'v LRUCache \<Rightarrow> 'v LRUCache" where
  "lru_clear c =
     (case lru_popitem c of
        Inl e \<Rightarrow> c
      | Inr (kv, c') \<Rightarrow> lru_clear c')"
  by pat_completeness auto
termination
  by (relation "measure (\<lambda>c. length (cache_data c))") (auto simp: lru_popitem_shorter)

declare lru_clear.simps [simp del]

text \<open>
  Iterating \<^verbatim>\<open>items()\<close> or \<^verbatim>\<open>values()\<close> to the end reads every key in dictionary
  order, which makes that order the recency order.
\<close>

fun lru_touch_all :: "'v LRUCache \<Rightarrow> string list \<Rightarrow> 'v LRUCache" where
  "lru_touch_all c [] = c"
| "lru_touch_all c (k # ks) = lru_touch_all (lru_update c k) ks"

section \<open>Keyboard records and the token codec\<close>

record KeyboardData =
  keyboard_uuid :: string
  button_data :: "(string, pyval) dict"
  access_time :: real

record state =
  maxsize :: int
  keyboard_data :: "KeyboardData LRUCache"
  callback_queries :: "string LRUCache"
  uuid_calls :: nat
  time_calls :: nat

text \<open>
  \<^verbatim>\<open>KeyboardData.__init__\<close>: \<^verbatim>\<open>button_data or {}\<close>, then
  \<^verbatim>\<open>access_time or time.time()\<close>; the clock is read only when no truthy access time is
  given.
\<close>

definition KeyboardData_init ::
  "env \<Rightarrow> state \<Rightarrow> string \<Rightarrow> real option \<Rightarrow> (string, pyval) dict option
     \<Rightarrow> KeyboardData \<times> state" where
  "KeyboardData_init e s uuid atime bd =
     (let bd' = (case bd of None \<Rightarrow> [] | Some d \<Rightarrow> if d = [] then [] else d);
          use_given = (case atime of None \<Rightarrow> False | Some t \<Rightarrow> t \<noteq> 0)
      in if use_given
         then (\<lparr>keyboard_uuid = uuid, button_data = bd', access_time = the atime\<rparr>, s)
         else (\<lparr>keyboard_uuid = uuid, button_data = bd',
                access_time = time_time e (time_calls s)\<rparr>,
               s\<lparr>time_calls := Suc (time_calls s)\<rparr>))"

definition KeyboardData_update :: "env \<Rightarrow> state \<Rightarrow> KeyboardData \<Rightarrow> KeyboardData \<times> state" where
  "KeyboardData_update e s kd =
     (kd\<lparr>access_time := time_time e (time_calls s)\<rparr>, s\<lparr>time_calls := Suc (time_calls s)\<rparr>)"

definition to_tuple :: "KeyboardData \<Rightarrow> string \<times> real \<times> (string, pyval) dict" where
  "to_tuple kd = (keyboard_uuid kd, access_time kd, button_data kd)"

text \<open>
  The token of \<^verbatim>\<open>__put_button\<close> is \<^verbatim>\<open>f'{keyboard_data.keyboard_uuid}{uuid}'\<close>;
  \<^verbatim>\<open>extract_uuids\<close> splits it at offset 32.
\<close>

definition encode :: "string \<Rightarrow> string \<Rightarrow> string" where
  "encode k b = k @ b"

definition extract_uuids :: "string \<Rightarrow> string \<times> string" where
  "extract_uuids callback_data = (take 32 callback_data, drop 32 callback_data)"

section \<open>Keyboards and callback queries\<close>

text \<open>
  Modelled from the spec: the classes \<^verbatim>\<open>InlineKeyboardButton\<close>, \<^verbatim>\<open>InlineKeyboardMarkup\<close>,
  \<^verbatim>\<open>Message\<close> and \<^verbatim>\<open>CallbackQuery\<close> are declared outside the source file. A
  keyboard is rows of buttons, each with a text and an optional payload (\<open>PNone\<close> when
  absent); an event carries an identifier, an optional top-level data string and an
  optional message with an optional keyboard. Only the fields the cache reads are kept.
\<close>

record InlineKeyboardButton =
  button_text :: string
  callback_data :: pyval

record InlineKeyboardMarkup =
  inline_keyboard :: "InlineKeyboardButton list list"

record Message =
  reply_markup :: "InlineKeyboardMarkup option"

record CallbackQuery =
  query_id :: string
  query_data :: pyval
  message :: "Message option"

section \<open>The callback data cache\<close>

text \<open>
  Modelled from the spec: \<^verbatim>\<open>CDCData\<close> (declared in \<^verbatim>\<open>telegram.ext.utils.types\<close>) is
  a sequence of (keyboard identifier, access time, button data) plus a mapping from event
  identifier to keyboard identifier.
\<close>

type_synonym CDCData =
  "(string \<times> real \<times> (string, pyval) dict) list \<times> (string, string) dict"

fun init_callback_queries :: "string LRUCache \<Rightarrow> (string, string) dict \<Rightarrow> error + string LRUCache" where
  "init_callback_queries c [] = Inr c"
| "init_callback_queries c ((key, val) # rest) =
     (case lru_setitem c key val of
        Inl e \<Rightarrow> Inl e
      | Inr c' \<Rightarrow> init_callback_queries c' rest)"

fun init_keyboard_data ::
  "env \<Rightarrow> state \<Rightarrow> (string \<times> real \<times> (string, pyval) dict) list \<Rightarrow> error + state" where
  "init_keyboard_data e s [] = Inr s"
| "init_keyboard_data e s ((uuid, atime, bd) # rest) =
     (let (kd, s1) = KeyboardData_init e s uuid (Some atime) (Some bd)
      in case lru_setitem (keyboard_data s1) uuid kd of
           Inl er \<Rightarrow> Inl er
         | Inr c \<Rightarrow> init_keyboard_data e (s1\<lparr>keyboard_data := c\<rparr>) rest)"

text \<open>
  \<^verbatim>\<open>CallbackDataCache.__init__\<close>. The two counters say how many identifiers and clock
  readings the process has drawn before the cache is built.
\<close>

definition CallbackDataCache_init ::
  "env \<Rightarrow> nat \<Rightarrow> nat \<Rightarrow> int \<Rightarrow> CDCData option \<Rightarrow> error + state" where
  "CallbackDataCache_init e u t m persistent_data =
     (let s = \<lparr>maxsize = m, keyboard_data = LRUCache_init m, callback_queries = LRUCache_init m,
                uuid_calls = u, time_calls = t\<rparr>
      in case persistent_data of
           None \<Rightarrow> Inr s
         | Some (kbs, cqs) \<Rightarrow>
             (case init_callback_queries (callback_queries s) cqs of
                Inl er \<Rightarrow> Inl er
              | Inr c \<Rightarrow> init_keyboard_data e (s\<lparr>callback_queries := c\<rparr>) kbs))"

text \<open>
  \<^verbatim>\<open>persistence_data\<close> reads every item of both stores in dictionary order.
\<close>

definition persistence_data :: "state \<Rightarrow> CDCData \<times> state" where
  "persistence_data s =
     (let kb = keyboard_data s; cq = callback_queries s
      in ((map (to_tuple \<circ> snd) (cache_data kb), cache_data cq),
          s\<lparr>keyboard_data := lru_touch_all kb (dict_keys (cache_data kb)),
            callback_queries := lru_touch_all cq (dict_keys (cache_data cq))\<rparr>))"

subsection \<open>Sending: \<^verbatim>\<open>put_keyboard\<close>\<close>

definition put_button ::
  "env \<Rightarrow> state \<Rightarrow> pyval \<Rightarrow> KeyboardData \<Rightarrow> string \<times> KeyboardData \<times> state" where
  "put_button e s cbd kd =
     (let uuid = uuid4_hex e (uuid_calls s)
      in (encode (keyboard_uuid kd) uuid,
          kd\<lparr>button_data := dict_setitem (button_data kd) uuid cbd\<rparr>,
          s\<lparr>uuid_calls := Suc (uuid_calls s)\<rparr>))"

text \<open>
  One element of the comprehension of \<^verbatim>\<open>__put_keyboard\<close>: a new button with the token
  \<^verbatim>\<open>if btn.callback_data\<close>, \<^verbatim>\<open>else btn\<close>.
\<close>

definition put_keyboard_button ::
  "env \<Rightarrow> state \<Rightarrow> KeyboardData \<Rightarrow> InlineKeyboardButton
     \<Rightarrow> InlineKeyboardButton \<times> KeyboardData \<times> state" where
  "put_keyboard_button e s kd btn =
     (if truthy (callback_data btn) then
        (let (token, kd', s') = put_button e s (callback_data btn) kd
         in (\<lparr>button_text = button_text btn, callback_data = PStr token\<rparr>, kd', s'))
      else (btn, kd, s))"

fun put_keyboard_row ::
  "env \<Rightarrow> state \<Rightarrow> KeyboardData \<Rightarrow> InlineKeyboardButton list
     \<Rightarrow> InlineKeyboardButton list \<times> KeyboardData \<times> state" where
  "put_keyboard_row e s kd [] = ([], kd, s)"
| "put_keyboard_row e s kd (btn # row) =
     (let (btn', kd1, s1) = put_keyboard_button e s kd btn;
          (row', kd2, s2) = put_keyboard_row e s1 kd1 row
      in (btn' # row', kd2, s2))"

fun put_keyboard_rows ::
  "env \<Rightarrow> state \<Rightarrow> KeyboardData \<Rightarrow> InlineKeyboardButton list list
     \<Rightarrow> InlineKeyboardButton list list \<times> KeyboardData \<times> state" where
  "put_keyboard_rows e s kd [] = ([], kd, s)"
| "put_keyboard_rows e s kd (row # rows) =
     (let (row', kd1, s1) = put_keyboard_row e s kd row;
          (rows', kd2, s2) = put_keyboard_rows e s1 kd1 rows
      in (row' # rows', kd2, s2))"

definition put_keyboard ::
  "env \<Rightarrow> state \<Rightarrow> InlineKeyboardMarkup \<Rightarrow> (error + InlineKeyboardMarkup) \<times> state" where
  "put_keyboard e s markup =
     (let kuuid = uuid4_hex e (uuid_calls s);
          s1 = s\<lparr>uuid_calls := Suc (uuid_calls s)\<rparr>;
          (kd, s2) = KeyboardData_init e s1 kuuid None None;
          (buttons, kd', s3) = put_keyboard_rows e s2 kd (inline_keyboard markup)
      in if button_data kd' = [] then (Inr markup, s3)
         else
           (case lru_setitem (keyboard_data s3) kuuid kd' of
              Inl er \<Rightarrow> (Inl er, s3)
            | Inr c \<Rightarrow> (Inr \<lparr>inline_keyboard = buttons\<rparr>, s3\<lparr>keyboard_data := c\<rparr>)))"

subsection \<open>Receiving: \<^verbatim>\<open>process_callback_query\<close>\<close>

text \<open>
  \<^verbatim>\<open>__get_button_data\<close>: both lookups, then \<^verbatim>\<open>update()\<close> of the stored record (the
  object in the store is mutated, its place in either order is not). A \<^verbatim>\<open>KeyError\<close> of
  either lookup gives the \<^verbatim>\<open>InvalidCallbackData\<close> value.
\<close>

definition get_button_data :: "env \<Rightarrow> state \<Rightarrow> string \<Rightarrow> pyval \<times> state" where
  "get_button_data e s cbd =
     (let (keyboard, button) = extract_uuids cbd
      in case lru_getitem (keyboard_data s) keyboard of
           Inl er \<Rightarrow> (InvalidCallbackData cbd, s)
         | Inr (kd, c) \<Rightarrow>
             (let s1 = s\<lparr>keyboard_data := c\<rparr>
              in case dict_get (button_data kd) button of
                   None \<Rightarrow> (InvalidCallbackData cbd, s1)
                 | Some bd \<Rightarrow>
                     (let (kd', s2) = KeyboardData_update e s1 kd
                      in (bd, s2\<lparr>keyboard_data := (keyboard_data s2)
                            \<lparr>cache_data := dict_setitem (cache_data (keyboard_data s2)) keyboard kd'\<rparr>\<rparr>))))"

text \<open>
  The loop body over the attached keyboard. A truthy payload that is not a string cannot
  be sliced: \<^verbatim>\<open>TypeError\<close>, which leaves the loop.
\<close>

definition process_button ::
  "env \<Rightarrow> state \<Rightarrow> InlineKeyboardButton \<Rightarrow> error option \<times> state \<times> InlineKeyboardButton" where
  "process_button e s button =
     (if truthy (callback_data button) then
        (case callback_data button of
           PStr d \<Rightarrow> (let (v, s') = get_button_data e s d in (None, s', button\<lparr>callback_data := v\<rparr>))
         | _ \<Rightarrow> (Some TypeError, s, button))
      else (None, s, button))"

fun process_row ::
  "env \<Rightarrow> state \<Rightarrow> InlineKeyboardButton list
     \<Rightarrow> error option \<times> state \<times> InlineKeyboardButton list" where
  "process_row e s [] = (None, s, [])"
| "process_row e s (button # row) =
     (case process_button e s button of
        (Some er, s1, button') \<Rightarrow> (Some er, s1, button' # row)
      | (None, s1, button') \<Rightarrow>
          (let (er, s2, row') = process_row e s1 row in (er, s2, button' # row')))"

fun process_rows ::
  "env \<Rightarrow> state \<Rightarrow> InlineKeyboardButton list list
     \<Rightarrow> error option \<times> state \<times> InlineKeyboardButton list list" where
  "process_rows e s [] = (None, s, [])"
| "process_rows e s (row # rows) =
     (case process_row e s row of
        (Some er, s1, row') \<Rightarrow> (Some er, s1, row' # rows)
      | (None, s1, row') \<Rightarrow>
          (let (er, s2, rows') = process_rows e s1 rows in (er, s2, row' # rows')))"

definition process_callback_query ::
  "env \<Rightarrow> state \<Rightarrow> CallbackQuery \<Rightarrow> error option \<times> state \<times> CallbackQuery" where
  "process_callback_query e s q =
     (if \<not> truthy (query_data q) then (None, s, q)
      else
        (case query_data q of
           PStr d \<Rightarrow>
             (case lru_setitem (callback_queries s) (query_id q) (fst (extract_uuids d)) of
                Inl er \<Rightarrow> (Some er, s, q)
              | Inr c \<Rightarrow>
                  (let s1 = s\<lparr>callback_queries := c\<rparr>;
                       (v, s2) = get_button_data e s1 d;
                       q1 = q\<lparr>query_data := v\<rparr>
                   in case message q1 of
                        None \<Rightarrow> (None, s2, q1)
                      | Some m \<Rightarrow>
                          (case reply_markup m of
                             None \<Rightarrow> (None, s2, q1)
                           | Some rm \<Rightarrow>
                               (let (er, s3, rows) = process_rows e s2 (inline_keyboard rm)
                                in (er, s3,
                                    q1\<lparr>message :=
                                      Some (m\<lparr>reply_markup := Some (rm\<lparr>inline_keyboard := rows\<rparr>)\<rparr>)\<rparr>)))))
         | _ \<Rightarrow> (Some TypeError, s, q)))"

subsection \<open>Dropping and clearing\<close>

definition drop_keyboard :: "state \<Rightarrow> string \<Rightarrow> state" where
  "drop_keyboard s kuuid =
     (case lru_pop (keyboard_data s) kuuid of
        Inl er \<Rightarrow> s
      | Inr (kd, c) \<Rightarrow> s\<lparr>keyboard_data := c\<rparr>)"

definition drop_data :: "state \<Rightarrow> CallbackQuery \<Rightarrow> error option \<times> state" where
  "drop_data s q =
     (case lru_pop (callback_queries s) (query_id q) of
        Inl er \<Rightarrow> (Some KeyError, s)
      | Inr (kuuid, c) \<Rightarrow> (None, drop_keyboard (s\<lparr>callback_queries := c\<rparr>) kuuid))"

text \<open>
  The cutoff is a number or a \<^verbatim>\<open>datetime\<close>; \<^verbatim>\<open>to_float_timestamp\<close> lives outside the
  source file and is a parameter. \<^verbatim>\<open>not time_cutoff\<close> holds for \<^verbatim>\<open>None\<close> and for the
  number zero; a \<^verbatim>\<open>datetime\<close> is always truthy.
\<close>

datatype 'dt time_cutoff = Timestamp real | Datetime 'dt

fun cutoff_truthy :: "'dt time_cutoff option \<Rightarrow> bool" where
  "cutoff_truthy None = False"
| "cutoff_truthy (Some (Timestamp t)) = (t \<noteq> 0)"
| "cutoff_truthy (Some (Datetime d)) = True"

fun effective_cutoff :: "('dt \<Rightarrow> real) \<Rightarrow> 'dt time_cutoff \<Rightarrow> real" where
  "effective_cutoff to_float_timestamp (Datetime d) = to_float_timestamp d"
| "effective_cutoff to_float_timestamp (Timestamp t) = t"

text \<open>
  The attribute \<^verbatim>\<open>data.access_time\<close> of a stored value: a keyboard record has it, a
  string (the value type of the association store) raises \<^verbatim>\<open>AttributeError\<close>.
\<close>

definition KeyboardData_access_time :: "KeyboardData \<Rightarrow> error + real" where
  "KeyboardData_access_time kd = Inr (access_time kd)"

definition str_access_time :: "string \<Rightarrow> error + real" where
  "str_access_time v = Inl AttributeError"

text \<open>
  The two last statements of \<^verbatim>\<open>__clear\<close>. \<^verbatim>\<open>to_drop\<close> is a generator over
  \<^verbatim>\<open>mapping.items()\<close>, so keys are popped while the dictionary is being iterated. Each
  step reads the next item (which touches its recency) and tests it; the first key that
  passes the test is popped, and when the generator is resumed the dictionary iterator
  finds the size changed and raises \<^verbatim>\<open>RuntimeError\<close>.
\<close>

fun clear_scan ::
  "('v \<Rightarrow> error + real) \<Rightarrow> real \<Rightarrow> string list \<Rightarrow> 'v LRUCache \<Rightarrow> error option \<times> 'v LRUCache" where
  "clear_scan attr cutoff [] c = (None, c)"
| "clear_scan attr cutoff (key # keys) c =
     (case lru_getitem c key of
        Inl er \<Rightarrow> (Some er, c)
      | Inr (v, c1) \<Rightarrow>
          (case attr v of
             Inl er \<Rightarrow> (Some er, c1)
           | Inr t \<Rightarrow>
               if t < cutoff then
                 (case lru_pop c1 key of
                    Inl er \<Rightarrow> (Some er, c1)
                  | Inr (v', c2) \<Rightarrow> (Some RuntimeError, c2))
               else clear_scan attr cutoff keys c1))"

definition clear ::
  "('dt \<Rightarrow> real) \<Rightarrow> ('v \<Rightarrow> error + real) \<Rightarrow> 'v LRUCache \<Rightarrow> 'dt time_cutoff option
     \<Rightarrow> error option \<times> 'v LRUCache" where
  "clear to_float_timestamp attr mapping time_cutoff =
     (if \<not> cutoff_truthy time_cutoff then (None, lru_clear mapping)
      else
        clear_scan attr (effective_cutoff to_float_timestamp (the time_cutoff))
          (dict_keys (cache_data mapping)) mapping)"

definition clear_callback_data ::
  "('dt \<Rightarrow> real) \<Rightarrow> state \<Rightarrow> 'dt time_cutoff option \<Rightarrow> error option \<times> state" where
  "clear_callback_data to_float_timestamp s time_cutoff =
     (let (er, c) = clear to_float_timestamp KeyboardData_access_time (keyboard_data s) time_cutoff
      in (er, s\<lparr>keyboard_data := c\<rparr>))"

definition clear_callback_queries ::
  "('dt \<Rightarrow> real) \<Rightarrow> state \<Rightarrow> 'dt time_cutoff option \<Rightarrow> error option \<times> state" where
  "clear_callback_queries to_float_timestamp s time_cutoff =
     (let (er, c) = clear to_float_timestamp str_access_time (callback_queries s) time_cutoff
      in (er, s\<lparr>callback_queries := c\<rparr>))"

section \<open>Predicates on keyboards and states\<close>

text \<open>
  A keyboard has a payload when some button's \<^verbatim>\<open>callback_data\<close> is truthy, the test of
  \<^verbatim>\<open>__put_keyboard\<close>.
\<close>

definition row_has_payload :: "InlineKeyboardButton list \<Rightarrow> bool" where
  "row_has_payload row = list_ex (\<lambda>btn. truthy (callback_data btn)) row"

definition has_payload :: "InlineKeyboardMarkup \<Rightarrow> bool" where
  "has_payload markup = list_ex row_has_payload (inline_keyboard markup)"

text \<open>
  A button whose payload is not truthy is passed through: the output button is the
  input button.
\<close>

definition passes_falsy :: "InlineKeyboardButton \<Rightarrow> InlineKeyboardButton \<Rightarrow> bool" where
  "passes_falsy btn btn' \<longleftrightarrow> (\<not> truthy (callback_data btn) \<longrightarrow> btn' = btn)"

text \<open>
  A store is consistent when the recency order lists exactly the keys of the dictionary,
  each once.
\<close>

definition lru_wf :: "'v LRUCache \<Rightarrow> bool" where
  "lru_wf c \<longleftrightarrow> distinct (dict_keys (cache_data c)) \<and> distinct (cache_order c)
     \<and> set (cache_order c) = set (dict_keys (cache_data c))"

text \<open>
  A store is in order for the capacity \<open>m\<close> when it is consistent, has that capacity and
  holds at most \<open>m\<close> items.
\<close>

definition lru_ok :: "int \<Rightarrow> 'v LRUCache \<Rightarrow> bool" where
  "lru_ok m c \<longleftrightarrow> lru_wf c \<and> cache_maxsize c = m \<and> int (length (cache_data c)) \<le> m"

text \<open>
  The invariant of a cache built with a positive capacity: both stores are consistent
  (the recency order lists exactly the keys of the dictionary, once each) and hold at
  most \<^verbatim>\<open>maxsize\<close> items.
\<close>

definition state_ok :: "state \<Rightarrow> bool" where
  "state_ok s \<longleftrightarrow>
     1 \<le> maxsize s \<and>
     lru_wf (keyboard_data s) \<and> lru_wf (callback_queries s) \<and>
     cache_maxsize (keyboard_data s) = maxsize s \<and>
     cache_maxsize (callback_queries s) = maxsize s \<and>
     int (length (cache_data (keyboard_data s))) \<le> maxsize s \<and>
     int (length (cache_data (callback_queries s))) \<le> maxsize s"




text \<open>
  The states a cache of capacity \<open>C\<close> can be in: built by the constructor, then changed by
  any of the public operations, whatever they return or raise. Between two operations the
  rest of the program may draw identifiers and read the clock.
\<close>

inductive reachable :: "env \<Rightarrow> ('dt \<Rightarrow> real) \<Rightarrow> int \<Rightarrow> state \<Rightarrow> bool"
  for e :: env and f :: "'dt \<Rightarrow> real" and C :: int where
  init: "CallbackDataCache_init e u t C pd = Inr s \<Longrightarrow> reachable e f C s"
| put: "reachable e f C s \<Longrightarrow> put_keyboard e s markup = (r, s') \<Longrightarrow> reachable e f C s'"
| process: "reachable e f C s \<Longrightarrow> process_callback_query e s q = (er, s', q') \<Longrightarrow> reachable e f C s'"
| drop: "reachable e f C s \<Longrightarrow> drop_data s q = (er, s') \<Longrightarrow> reachable e f C s'"
| clear_data: "reachable e f C s \<Longrightarrow> clear_callback_data f s cutoff = (er, s') \<Longrightarrow> reachable e f C s'"
| clear_queries: "reachable e f C s \<Longrightarrow> clear_callback_queries f s cutoff = (er, s') \<Longrightarrow> reachable e f C s'"
| persist: "reachable e f C s \<Longrightarrow> persistence_data s = (d, s') \<Longrightarrow> reachable e f C s'"
| elsewhere: "reachable e f C s \<Longrightarrow> uuid_calls s \<le> n \<Longrightarrow> time_calls s \<le> k \<Longrightarrow>
     reachable e f C (s\<lparr>uuid_calls := n, time_calls := k\<rparr>)"



text \<open>
  A key of the keyboard store is older than a cutoff when its record's access time is
  below the cutoff, the test of \<^verbatim>\<open>__clear\<close>.
\<close>

definition older :: "real \<Rightarrow> (string, KeyboardData) dict \<Rightarrow> string \<Rightarrow> bool" where
  "older cutoff d k =
     (case dict_get d k of None \<Rightarrow> False | Some kd \<Rightarrow> access_time kd < cutoff)"

section \<open>Example inputs\<close>

definition example_uuid :: "nat \<Rightarrow> string" where
  "example_uuid n = replicate 32 (''abcdefghijklmnop'' ! (n mod 16))"

definition example_env :: env where
  "example_env = \<lparr>uuid4_hex = example_uuid, time_time = (\<lambda>n. 100 + real n)\<rparr>"

definition example_snapshot :: CDCData where
  "example_snapshot =
     ([(example_uuid 10, 1, [(example_uuid 12, PInt 7)]),
       (example_uuid 11, 2, [(example_uuid 13, PStr ''x'')])],
      [(''query-1'', example_uuid 10)])"

definition example_state :: state where
  "example_state =
     \<lparr>maxsize = 2,
      keyboard_data =
        \<lparr>cache_maxsize = 2,
         cache_data =
           [(example_uuid 10,
             \<lparr>keyboard_uuid = example_uuid 10, button_data = [(example_uuid 12, PInt 7)],
              access_time = 1\<rparr>),
            (example_uuid 11,
             \<lparr>keyboard_uuid = example_uuid 11, button_data = [(example_uuid 13, PStr ''x'')],
              access_time = 2\<rparr>)],
         cache_order = [example_uuid 10, example_uuid 11]\<rparr>,
      callback_queries =
        \<lparr>cache_maxsize = 2, cache_data = [(''query-1'', example_uuid 10)],
         cache_order = [''query-1'']\<rparr>,
      uuid_calls = 0, time_calls = 0\<rparr>"

definition example_empty_state :: state where
  "example_empty_state =
     \<lparr>maxsize = 2, keyboard_data = LRUCache_init 2, callback_queries = LRUCache_init 2,
      uuid_calls = 0, time_calls = 0\<rparr>"

definition example_plain_markup :: InlineKeyboardMarkup where
  "example_plain_markup =
     \<lparr>inline_keyboard = [[\<lparr>button_text = ''ok'', callback_data = PNone\<rparr>]]\<rparr>"


definition example_token_good :: string where
  "example_token_good = encode (example_uuid 10) (example_uuid 12)"

definition example_token_unknown :: string where
  "example_token_unknown = encode (example_uuid 5) (example_uuid 6)"

definition example_payload_markup :: InlineKeyboardMarkup where
  "example_payload_markup =
     \<lparr>inline_keyboard =
        [[\<lparr>button_text = ''yes'', callback_data = PInt 1\<rparr>,
          \<lparr>button_text = ''empty'', callback_data = PStr ''''\<rparr>]]\<rparr>"

definition example_query :: CallbackQuery where
  "example_query =
     \<lparr>query_id = ''query-2'', query_data = PStr example_token_unknown,
      message = Some \<lparr>reply_markup = Some
        \<lparr>inline_keyboard =
           [[\<lparr>button_text = ''a'', callback_data = PStr example_token_good\<rparr>,
             \<lparr>button_text = ''b'', callback_data = PStr ''''\<rparr>]]\<rparr>\<rparr>\<rparr>"

definition example_query_no_data :: CallbackQuery where
  "example_query_no_data =
     \<lparr>query_id = ''query-3'', query_data = PStr '''',
      message = Some \<lparr>reply_markup = Some
        \<lparr>inline_keyboard =
           [[\<lparr>button_text = ''a'', callback_data = PStr example_token_good\<rparr>]]\<rparr>\<rparr>\<rparr>"

definition example_payload_markup_sent :: InlineKeyboardMarkup where
  "example_payload_markup_sent =
     \<lparr>inline_keyboard =
        [[\<lparr>button_text = ''yes'', callback_data = PStr (encode (example_uuid 0) (example_uuid 1))\<rparr>,
          \<lparr>button_text = ''empty'', callback_data = PStr ''''\<rparr>]]\<rparr>"

definition example_query_first :: CallbackQuery where
  "example_query_first =
     \<lparr>query_id = ''query-1'', query_data = PStr example_token_good, message = None\<rparr>"

definition example_state_unknown_keyboard :: state where
  "example_state_unknown_keyboard =
     fst (snd (process_callback_query example_env example_state example_query))"


section \<open>Properties of dictionaries and of the bounded store\<close>

lemma dict_keys_setitem:
  "set (dict_keys (dict_setitem d k v)) = insert k (set (dict_keys d))"
  by (induction d) (auto simp: dict_keys_def)

lemma dict_keys_setitem_new:
  "k \<notin> set (dict_keys d) \<Longrightarrow> dict_keys (dict_setitem d k v) = dict_keys d @ [k]"
  by (induction d) (auto simp: dict_keys_def)

lemma dict_keys_setitem_old:
  "k \<in> set (dict_keys d) \<Longrightarrow> dict_keys (dict_setitem d k v) = dict_keys d"
  by (induction d) (auto simp: dict_keys_def)

lemma distinct_dict_setitem:
  "distinct (dict_keys d) \<Longrightarrow> distinct (dict_keys (dict_setitem d k v))"
  by (cases "k \<in> set (dict_keys d)") (simp_all add: dict_keys_setitem_new dict_keys_setitem_old)

lemma length_dict_setitem:
  "length (dict_setitem d k v) = (if k \<in> set (dict_keys d) then length d else Suc (length d))"
  by (induction d) (auto simp: dict_keys_def)

lemma dict_setitem_not_empty: "dict_setitem d k v \<noteq> []"
  by (cases d) auto

lemma dict_get_setitem:
  "dict_get (dict_setitem d k v) k' = (if k' = k then Some v else dict_get d k')"
  by (induction d) (auto simp: dict_get_def)

lemma dict_keys_delitem:
  "distinct (dict_keys d) \<Longrightarrow> dict_keys (dict_delitem d k) = remove1 k (dict_keys d)"
  by (induction d) (auto simp: dict_keys_def)

lemma dict_get_None_iff: "dict_get d k = None \<longleftrightarrow> k \<notin> set (dict_keys d)"
  by (simp add: dict_get_def dict_keys_def map_of_eq_None_iff)

lemma dict_get_delitem_other:
  "k' \<noteq> k \<Longrightarrow> dict_get (dict_delitem d k) k' = dict_get d k'"
  by (induction d) (auto simp: dict_get_def)

lemma dict_get_delitem_same:
  "distinct (dict_keys d) \<Longrightarrow> dict_get (dict_delitem d k) k = None"
  by (simp add: dict_get_None_iff dict_keys_delitem)

lemma length_dict_delitem:
  "k \<in> set (dict_keys d) \<Longrightarrow> Suc (length (dict_delitem d k)) = length d"
  by (induction d) (auto simp: dict_keys_def)

lemma remove1_touch: "distinct xs \<Longrightarrow> remove1 k (remove1 k xs @ [k]) = remove1 k xs"
  by (simp add: remove1_append)

lemma lru_getitem_Inr:
  "lru_getitem c k = Inr (v, c') \<Longrightarrow>
     dict_get (cache_data c) k = Some v \<and> c' = lru_update c k"
  by (auto simp: lru_getitem_def split: option.splits)

lemma lru_getitem_Inl:
  "lru_getitem c k = Inl er \<Longrightarrow> er = KeyError \<and> dict_get (cache_data c) k = None"
  by (auto simp: lru_getitem_def split: option.splits)

lemma lru_update_wf:
  "lru_wf c \<Longrightarrow> k \<in> set (dict_keys (cache_data c)) \<Longrightarrow> lru_wf (lru_update c k)"
  by (auto simp: lru_wf_def lru_update_def)

lemma lru_update_simps:
  "cache_data (lru_update c k) = cache_data c"
  "cache_maxsize (lru_update c k) = cache_maxsize c"
  "cache_order (lru_update c k) = remove1 k (cache_order c) @ [k]"
  by (simp_all add: lru_update_def)

lemma lru_pop_wf:
  assumes "lru_wf c"
  shows "lru_pop c k =
     (case dict_get (cache_data c) k of
        None \<Rightarrow> Inl KeyError
      | Some v \<Rightarrow> Inr (v, c\<lparr>cache_data := dict_delitem (cache_data c) k,
                             cache_order := remove1 k (cache_order c)\<rparr>))"
proof (cases "dict_get (cache_data c) k")
  case None
  then have "k \<notin> set (dict_keys (cache_data c))" by (simp add: dict_get_None_iff)
  with None show ?thesis
    by (simp add: lru_pop_def lru_contains_def)
next
  case (Some v)
  then have "k \<in> set (dict_keys (cache_data c))"
    using dict_get_None_iff [of "cache_data c" k] by simp
  with Some assms show ?thesis
    by (simp add: lru_pop_def lru_contains_def lru_getitem_def lru_delitem_def lru_update_def
        lru_wf_def remove1_touch)
qed

lemma lru_pop_Inl: "lru_pop c k = Inl er \<Longrightarrow> er = KeyError \<and> \<not> lru_contains c k"
  by (auto simp: lru_pop_def lru_contains_def lru_getitem_def lru_delitem_def lru_update_def
      dict_get_None_iff split: option.splits if_splits)

lemma lru_pop_preserves_wf:
  "lru_wf c \<Longrightarrow> lru_pop c k = Inr (v, c') \<Longrightarrow> lru_wf c' \<and> cache_maxsize c' = cache_maxsize c
    \<and> length (cache_data c') < length (cache_data c)"
proof -
  assume wf: "lru_wf c" and p: "lru_pop c k = Inr (v, c')"
  from p have sh: "length (cache_data c') < length (cache_data c)" by (rule lru_pop_shorter)
  from wf p have c': "c' = c\<lparr>cache_data := dict_delitem (cache_data c) k,
                             cache_order := remove1 k (cache_order c)\<rparr>"
    by (simp add: lru_pop_wf split: option.splits)
  from wf have "lru_wf c'"
    unfolding c' by (simp add: lru_wf_def dict_keys_delitem)
  with sh c' show ?thesis by simp
qed

lemma lru_popitem_wf:
  assumes "lru_wf c" "cache_order c = k # ks"
  shows "\<exists>v. dict_get (cache_data c) k = Some v \<and>
           lru_popitem c = Inr ((k, v), c\<lparr>cache_data := dict_delitem (cache_data c) k,
                                             cache_order := ks\<rparr>)"
proof -
  from assms have "k \<in> set (dict_keys (cache_data c))" by (auto simp: lru_wf_def)
  then obtain v where v: "dict_get (cache_data c) k = Some v"
    using dict_get_None_iff [of "cache_data c" k] by (cases "dict_get (cache_data c) k") auto
  with assms show ?thesis
    by (simp add: lru_popitem_def lru_pop_wf)
qed

lemma lru_wf_empty_order: "lru_wf c \<Longrightarrow> cache_order c = [] \<Longrightarrow> cache_data c = []"
  by (simp add: lru_wf_def dict_keys_def)

lemma lru_wf_length: "lru_wf c \<Longrightarrow> length (cache_order c) = length (cache_data c)"
proof -
  assume "lru_wf c"
  then have "length (cache_order c) = length (dict_keys (cache_data c))"
    unfolding lru_wf_def by (metis distinct_card)
  then show ?thesis by (simp add: dict_keys_def)
qed

lemma lru_popitem_Inr_wf:
  "lru_wf c \<Longrightarrow> lru_popitem c = Inr (kv, c') \<Longrightarrow>
     lru_wf c' \<and> cache_maxsize c' = cache_maxsize c"
  by (auto simp: lru_popitem_def dest: lru_pop_preserves_wf split: list.splits sum.splits)

lemma lru_make_room_ok:
  "lru_wf c \<Longrightarrow> 1 \<le> cache_maxsize c \<Longrightarrow>
     \<exists>c'. lru_make_room c = Inr c' \<and> lru_wf c' \<and> cache_maxsize c' = cache_maxsize c
        \<and> int (length (cache_data c')) + 1 \<le> cache_maxsize c
        \<and> length (cache_data c') \<le> length (cache_data c)"
proof (induction c rule: lru_make_room.induct)
  case (1 c)
  show ?case
  proof (cases "int (length (cache_data c)) + 1 > cache_maxsize c")
    case False
    with "1.prems" show ?thesis by (subst lru_make_room.simps) simp
  next
    case True
    with "1.prems" have "cache_data c \<noteq> []" by auto
    with "1.prems" obtain k ks where o: "cache_order c = k # ks"
      using lru_wf_length [of c] by (cases "cache_order c") auto
    from lru_popitem_wf [OF "1.prems"(1) o] obtain v where
      p: "lru_popitem c = Inr ((k, v), c\<lparr>cache_data := dict_delitem (cache_data c) k, cache_order := ks\<rparr>)"
      by blast
    let ?c' = "c\<lparr>cache_data := dict_delitem (cache_data c) k, cache_order := ks\<rparr>"
    from lru_popitem_Inr_wf [OF "1.prems"(1) p] have wf': "lru_wf ?c'" by simp
    from lru_popitem_shorter [OF p] have sh: "length (cache_data ?c') < length (cache_data c)" .
    from "1.IH" [OF True p refl wf'] "1.prems" obtain c'' where
      "lru_make_room ?c' = Inr c''" "lru_wf c''" "cache_maxsize c'' = cache_maxsize c"
      "int (length (cache_data c'')) + 1 \<le> cache_maxsize c"
      "length (cache_data c'') \<le> length (cache_data ?c')"
      by auto
    with True p sh show ?thesis
      by (subst lru_make_room.simps) auto
  qed
qed


lemma lru_setitem_ok:
  assumes "lru_wf c" "1 \<le> cache_maxsize c" "int (length (cache_data c)) \<le> cache_maxsize c"
  shows "\<exists>c'. lru_setitem c k v = Inr c' \<and> lru_wf c' \<and> cache_maxsize c' = cache_maxsize c
        \<and> int (length (cache_data c')) \<le> cache_maxsize c
        \<and> dict_get (cache_data c') k = Some v"
proof (cases "lru_contains c k")
  case True
  with assms show ?thesis
    by (auto simp: lru_setitem_def lru_update_def lru_contains_def lru_wf_def
        dict_keys_setitem dict_keys_setitem_old length_dict_setitem dict_get_setitem)
next
  case False
  from lru_make_room_ok [OF assms(1,2)] obtain c1 where
    c1: "lru_make_room c = Inr c1" "lru_wf c1" "cache_maxsize c1 = cache_maxsize c"
      "int (length (cache_data c1)) + 1 \<le> cache_maxsize c"
    by blast
  with assms False show ?thesis
    by (auto simp: lru_setitem_def lru_update_def lru_wf_def
        dict_keys_setitem distinct_dict_setitem length_dict_setitem dict_get_setitem)
qed


lemma lru_clear_wf:
  "lru_wf c \<Longrightarrow> cache_data (lru_clear c) = [] \<and> cache_order (lru_clear c) = []
     \<and> cache_maxsize (lru_clear c) = cache_maxsize c"
proof (induction c rule: lru_clear.induct)
  case (1 c)
  show ?case
  proof (cases "cache_order c")
    case Nil
    with "1.prems" have "cache_data c = []" by (simp add: lru_wf_empty_order)
    with Nil show ?thesis
      by (subst (1 2 3) lru_clear.simps) (simp add: lru_popitem_def)
  next
    case (Cons k ks)
    from lru_popitem_wf [OF "1.prems" Cons] obtain v where
      p: "lru_popitem c = Inr ((k, v), c\<lparr>cache_data := dict_delitem (cache_data c) k, cache_order := ks\<rparr>)"
      by blast
    from lru_popitem_Inr_wf [OF "1.prems" p] "1.IH" [OF p refl] p show ?thesis
      by (subst (1 2 3) lru_clear.simps) simp
  qed
qed

lemma clear_scan_inv:
  "lru_wf c \<Longrightarrow> clear_scan attr cutoff keys c = (er, c') \<Longrightarrow>
     lru_wf c' \<and> cache_maxsize c' = cache_maxsize c
     \<and> length (cache_data c') \<le> length (cache_data c)"
proof (induction keys arbitrary: c)
  case Nil
  then show ?case by simp
next
  case (Cons key keys)
  show ?case
  proof (cases "lru_getitem c key")
    case (Inl e)
    with Cons.prems show ?thesis by simp
  next
    case (Inr p)
    then obtain v c1 where g: "lru_getitem c key = Inr (v, c1)" by (cases p) auto
    then have c1: "c1 = lru_update c key" and dg: "dict_get (cache_data c) key = Some v"
      by (auto dest: lru_getitem_Inr)
    from dg have "key \<in> set (dict_keys (cache_data c))"
      using dict_get_None_iff [of "cache_data c" key] by simp
    with Cons.prems(1) have wf1: "lru_wf c1" unfolding c1 by (rule lru_update_wf)
    have d1: "cache_data c1 = cache_data c" "cache_maxsize c1 = cache_maxsize c"
      unfolding c1 by (simp_all add: lru_update_simps)
    show ?thesis
    proof (cases "attr v")
      case (Inl e)
      with Cons.prems g wf1 d1 show ?thesis by auto
    next
      case (Inr t)
      show ?thesis
      proof (cases "t < cutoff")
        case True
        from dg d1 have "dict_get (cache_data c1) key = Some v" by simp
        with wf1 obtain c2 where p: "lru_pop c1 key = Inr (v, c2)"
          by (simp add: lru_pop_wf)
        from lru_pop_preserves_wf [OF wf1 p]
        have i: "lru_wf c2" "cache_maxsize c2 = cache_maxsize c1"
          "length (cache_data c2) < length (cache_data c1)" by simp_all
        from Cons.prems(2) g Inr True p have "c' = c2" by simp
        with i d1 show ?thesis by simp
      next
        case False
        with Cons.prems g Inr have "clear_scan attr cutoff keys c1 = (er, c')" by simp
        from Cons.IH [OF wf1 this] d1 show ?thesis by simp
      qed
    qed
  qed
qed

section \<open>Properties of \<^verbatim>\<open>put_keyboard\<close>\<close>

lemma put_keyboard_button_props:
  assumes "put_keyboard_button e s kd btn = (btn', kd', s')"
  shows "keyboard_data s' = keyboard_data s" "callback_queries s' = callback_queries s"
    "maxsize s' = maxsize s" "time_calls s' = time_calls s" "uuid_calls s \<le> uuid_calls s'"
    "keyboard_uuid kd' = keyboard_uuid kd" "access_time kd' = access_time kd"
    "button_data kd' = [] \<longleftrightarrow> button_data kd = [] \<and> \<not> truthy (callback_data btn)"
    "\<not> truthy (callback_data btn) \<Longrightarrow> btn' = btn \<and> kd' = kd \<and> s' = s"
  using assms
  by (auto simp: put_keyboard_button_def put_button_def Let_def dict_setitem_not_empty
      split: if_splits)

lemma put_keyboard_row_props:
  assumes "put_keyboard_row e s kd row = (row', kd', s')"
  shows "keyboard_data s' = keyboard_data s \<and> callback_queries s' = callback_queries s \<and>
    maxsize s' = maxsize s \<and> time_calls s' = time_calls s \<and> uuid_calls s \<le> uuid_calls s' \<and>
    keyboard_uuid kd' = keyboard_uuid kd \<and> access_time kd' = access_time kd \<and>
    (button_data kd' = [] \<longleftrightarrow> button_data kd = [] \<and> \<not> row_has_payload row) \<and>
    (\<not> row_has_payload row \<longrightarrow> row' = row \<and> kd' = kd \<and> s' = s)"
  using assms
proof (induction row arbitrary: s kd row' kd' s')
  case Nil
  then show ?case by (simp add: row_has_payload_def)
next
  case (Cons btn row)
  obtain btn1 kd1 s1 where b: "put_keyboard_button e s kd btn = (btn1, kd1, s1)"
    by (cases "put_keyboard_button e s kd btn") auto
  obtain row2 kd2 s2 where r: "put_keyboard_row e s1 kd1 row = (row2, kd2, s2)"
    by (cases "put_keyboard_row e s1 kd1 row") auto
  from Cons.prems b r have eq: "row' = btn1 # row2" "kd' = kd2" "s' = s2" by simp_all
  note pb = put_keyboard_button_props [OF b]
  note ih = Cons.IH [OF r]
  have rh: "row_has_payload (btn # row) \<longleftrightarrow> truthy (callback_data btn) \<or> row_has_payload row"
    by (simp add: row_has_payload_def)
  show ?case unfolding eq rh using pb ih by auto
qed

lemma put_keyboard_rows_props:
  assumes "put_keyboard_rows e s kd rows = (rows', kd', s')"
  shows "keyboard_data s' = keyboard_data s \<and> callback_queries s' = callback_queries s \<and>
    maxsize s' = maxsize s \<and> time_calls s' = time_calls s \<and> uuid_calls s \<le> uuid_calls s' \<and>
    keyboard_uuid kd' = keyboard_uuid kd \<and> access_time kd' = access_time kd \<and>
    (button_data kd' = [] \<longleftrightarrow> button_data kd = [] \<and> \<not> list_ex row_has_payload rows) \<and>
    (\<not> list_ex row_has_payload rows \<longrightarrow> rows' = rows \<and> kd' = kd \<and> s' = s)"
  using assms
proof (induction rows arbitrary: s kd rows' kd' s')
  case Nil
  then show ?case by simp
next
  case (Cons row rows)
  obtain row1 kd1 s1 where b: "put_keyboard_row e s kd row = (row1, kd1, s1)"
    by (cases "put_keyboard_row e s kd row") auto
  obtain rows2 kd2 s2 where r: "put_keyboard_rows e s1 kd1 rows = (rows2, kd2, s2)"
    by (cases "put_keyboard_rows e s1 kd1 rows") auto
  from Cons.prems b r have eq: "rows' = row1 # rows2" "kd' = kd2" "s' = s2" by simp_all
  note pb = put_keyboard_row_props [OF b]
  note ih = Cons.IH [OF r]
  show ?case unfolding eq using pb ih by auto
qed

lemma put_keyboard_without_payload:
  assumes "\<not> has_payload markup"
  shows "put_keyboard e s markup =
           (Inr markup, s\<lparr>uuid_calls := Suc (uuid_calls s), time_calls := Suc (time_calls s)\<rparr>)"
proof -
  let ?s1 = "s\<lparr>uuid_calls := Suc (uuid_calls s)\<rparr>"
  let ?k = "uuid4_hex e (uuid_calls s)"
  obtain kd s2 where i: "KeyboardData_init e ?s1 ?k None None = (kd, s2)"
    by (cases "KeyboardData_init e ?s1 ?k None None") auto
  then have kd: "button_data kd = []" and s2: "s2 = ?s1\<lparr>time_calls := Suc (time_calls s)\<rparr>"
    by (auto simp: KeyboardData_init_def)
  obtain rows' kd' s3 where r: "put_keyboard_rows e s2 kd (inline_keyboard markup) = (rows', kd', s3)"
    by (cases "put_keyboard_rows e s2 kd (inline_keyboard markup)") auto
  from put_keyboard_rows_props [OF r] assms kd have "kd' = kd" "s3 = s2"
    by (simp_all add: has_payload_def)
  with i r kd s2 show ?thesis
    by (simp add: put_keyboard_def Let_def)
qed

section \<open>Properties of \<^verbatim>\<open>process_callback_query\<close>\<close>

lemma get_button_data_keyboard_miss:
  assumes "dict_get (cache_data (keyboard_data s)) (fst (extract_uuids d)) = None"
  shows "get_button_data e s d = (InvalidCallbackData d, s)"
  using assms
  by (simp add: get_button_data_def lru_getitem_def case_prod_beta Let_def)

lemma get_button_data_button_miss:
  assumes "dict_get (cache_data (keyboard_data s)) (fst (extract_uuids d)) = Some kd"
    and "dict_get (button_data kd) (snd (extract_uuids d)) = None"
  shows "get_button_data e s d =
           (InvalidCallbackData d,
            s\<lparr>keyboard_data := lru_update (keyboard_data s) (fst (extract_uuids d))\<rparr>)"
  using assms
  by (simp add: get_button_data_def lru_getitem_def case_prod_beta Let_def)

lemma get_button_data_hit:
  assumes "dict_get (cache_data (keyboard_data s)) (fst (extract_uuids d)) = Some kd"
    and "dict_get (button_data kd) (snd (extract_uuids d)) = Some p"
  shows "get_button_data e s d =
           (p, s\<lparr>keyboard_data :=
                   (lru_update (keyboard_data s) (fst (extract_uuids d)))
                     \<lparr>cache_data := dict_setitem (cache_data (keyboard_data s))
                        (fst (extract_uuids d)) (kd\<lparr>access_time := time_time e (time_calls s)\<rparr>)\<rparr>,
                 time_calls := Suc (time_calls s)\<rparr>)"
  using assms
  by (simp add: get_button_data_def lru_getitem_def KeyboardData_update_def lru_update_def
      case_prod_beta Let_def)

lemma dict_get_Some_key: "dict_get d k = Some v \<Longrightarrow> k \<in> set (dict_keys d)"
  using dict_get_None_iff [of d k] by auto

lemma get_button_data_inv:
  assumes "get_button_data e s d = (v, s')"
  shows "callback_queries s' = callback_queries s \<and> maxsize s' = maxsize s \<and>
         uuid_calls s' = uuid_calls s \<and>
         cache_maxsize (keyboard_data s') = cache_maxsize (keyboard_data s) \<and>
         dict_keys (cache_data (keyboard_data s')) = dict_keys (cache_data (keyboard_data s)) \<and>
         (lru_wf (keyboard_data s) \<longrightarrow> lru_wf (keyboard_data s'))"
proof (cases "dict_get (cache_data (keyboard_data s)) (fst (extract_uuids d))")
  case None
  from get_button_data_keyboard_miss [OF None, of e] assms show ?thesis by simp
next
  case (Some kd)
  note k = dict_get_Some_key [OF Some]
  show ?thesis
  proof (cases "dict_get (button_data kd) (snd (extract_uuids d))")
    case None
    from get_button_data_button_miss [OF Some None, of e] assms k show ?thesis
      by (auto simp: lru_update_simps lru_update_wf)
  next
    case (Some p)
    from get_button_data_hit [OF \<open>dict_get (cache_data (keyboard_data s)) (fst (extract_uuids d)) = Some kd\<close> Some, of e]
      assms k show ?thesis
      by (auto simp: lru_update_def lru_wf_def dict_keys_setitem_old)
  qed
qed

lemma get_button_data_state_ok:
  "state_ok s \<Longrightarrow> get_button_data e s d = (v, s') \<Longrightarrow> state_ok s'"
proof -
  assume ok: "state_ok s" and g: "get_button_data e s d = (v, s')"
  from get_button_data_inv [OF g] ok
  have "length (dict_keys (cache_data (keyboard_data s'))) = length (dict_keys (cache_data (keyboard_data s)))"
    by simp
  then have "length (cache_data (keyboard_data s')) = length (cache_data (keyboard_data s))"
    by (simp add: dict_keys_def)
  with get_button_data_inv [OF g] ok show ?thesis by (simp add: state_ok_def)
qed

lemma passes_falsy_refl: "passes_falsy btn btn"
  by (simp add: passes_falsy_def)

lemma passes_falsy_row_refl: "list_all2 passes_falsy row row"
  by (simp add: list_all2_refl passes_falsy_refl)

lemma passes_falsy_rows_refl: "list_all2 (list_all2 passes_falsy) rows rows"
  by (simp add: list_all2_refl passes_falsy_row_refl)

lemma process_button_inv:
  assumes "process_button e s btn = (er, s', btn')"
  shows "callback_queries s' = callback_queries s \<and> maxsize s' = maxsize s \<and>
         (state_ok s \<longrightarrow> state_ok s') \<and> er \<noteq> Some KeyError \<and> passes_falsy btn btn' \<and>
         (\<not> truthy (callback_data btn) \<longrightarrow> s' = s \<and> er = None)"
  using assms
  by (auto simp: process_button_def passes_falsy_def Let_def
      dest: get_button_data_inv get_button_data_state_ok
      split: if_splits pyval.splits prod.splits)

lemma process_row_inv:
  assumes "process_row e s row = (er, s', row')"
  shows "callback_queries s' = callback_queries s \<and> maxsize s' = maxsize s \<and>
         (state_ok s \<longrightarrow> state_ok s') \<and> er \<noteq> Some KeyError \<and>
         list_all2 passes_falsy row row'"
  using assms
proof (induction row arbitrary: s er s' row')
  case Nil
  then show ?case by simp
next
  case (Cons btn row)
  obtain er1 s1 btn1 where b: "process_button e s btn = (er1, s1, btn1)"
    by (cases "process_button e s btn") auto
  note pb = process_button_inv [OF b]
  show ?case
  proof (cases er1)
    case (Some x)
    with Cons.prems b have "er = er1" "s' = s1" "row' = btn1 # row" by simp_all
    with pb show ?thesis
      by (simp add: passes_falsy_row_refl passes_falsy_rows_refl)
  next
    case None
    obtain er2 s2 row2 where r: "process_row e s1 row = (er2, s2, row2)"
      by (cases "process_row e s1 row") auto
    with Cons.prems b None have "er = er2" "s' = s2" "row' = btn1 # row2" by simp_all
    with pb Cons.IH [OF r] show ?thesis by simp
  qed
qed

lemma process_rows_inv:
  assumes "process_rows e s rows = (er, s', rows')"
  shows "callback_queries s' = callback_queries s \<and> maxsize s' = maxsize s \<and>
         (state_ok s \<longrightarrow> state_ok s') \<and> er \<noteq> Some KeyError \<and>
         list_all2 (list_all2 passes_falsy) rows rows'"
  using assms
proof (induction rows arbitrary: s er s' rows')
  case Nil
  then show ?case by simp
next
  case (Cons row rows)
  obtain er1 s1 row1 where b: "process_row e s row = (er1, s1, row1)"
    by (cases "process_row e s row") auto
  note pb = process_row_inv [OF b]
  show ?case
  proof (cases er1)
    case (Some x)
    with Cons.prems b have "er = er1" "s' = s1" "rows' = row1 # rows" by simp_all
    with pb show ?thesis
      by (simp add: passes_falsy_row_refl passes_falsy_rows_refl)
  next
    case None
    obtain er2 s2 rows2 where r: "process_rows e s1 rows = (er2, s2, rows2)"
      by (cases "process_rows e s1 rows") auto
    with Cons.prems b None have "er = er2" "s' = s2" "rows' = row1 # rows2" by simp_all
    with pb Cons.IH [OF r] show ?thesis by simp
  qed
qed

lemma process_callback_query_no_data:
  "\<not> truthy (query_data q) \<Longrightarrow> process_callback_query e s q = (None, s, q)"
  by (simp add: process_callback_query_def)

lemma process_callback_query_records:
  assumes "query_data q = PStr d" "d \<noteq> []"
    and "lru_setitem (callback_queries s) (query_id q) (fst (extract_uuids d)) = Inr c"
    and "process_callback_query e s q = (er, s', q')"
  shows "callback_queries s' = c"
proof -
  let ?s1 = "s\<lparr>callback_queries := c\<rparr>"
  obtain v s2 where g: "get_button_data e ?s1 d = (v, s2)"
    by (cases "get_button_data e ?s1 d") auto
  from get_button_data_inv [OF g] have c2: "callback_queries s2 = c" by simp
  show ?thesis
  proof (cases "message q")
    case None
    with assms g c2 show ?thesis
      by (simp add: process_callback_query_def)
  next
    case (Some m)
    show ?thesis
    proof (cases "reply_markup m")
      case None
      with assms g c2 Some show ?thesis
        by (simp add: process_callback_query_def)
    next
      case (Some rm)
      obtain er3 s3 rows where r: "process_rows e s2 (inline_keyboard rm) = (er3, s3, rows)"
        by (cases "process_rows e s2 (inline_keyboard rm)") auto
      from process_rows_inv [OF r] c2 have "callback_queries s3 = c" by simp
      with assms g r Some \<open>message q = Some m\<close> show ?thesis
        by (simp add: process_callback_query_def)
    qed
  qed
qed






section \<open>Payloads that are passed through\<close>

lemma list_all_dict_setitem:
  "list_all P d \<Longrightarrow> P (k, v) \<Longrightarrow> list_all P (dict_setitem d k v)"
  by (induction d) auto

lemma put_keyboard_button_pass:
  assumes "put_keyboard_button e s kd btn = (btn', kd', s')"
  shows "passes_falsy btn btn' \<and>
         (list_all (\<lambda>(k, v). truthy v) (button_data kd) \<longrightarrow>
          list_all (\<lambda>(k, v). truthy v) (button_data kd'))"
  using assms
  by (auto simp: put_keyboard_button_def put_button_def Let_def passes_falsy_def
      list_all_dict_setitem split: if_splits)

lemma put_keyboard_row_pass:
  assumes "put_keyboard_row e s kd row = (row', kd', s')"
  shows "list_all2 passes_falsy row row' \<and>
         (list_all (\<lambda>(k, v). truthy v) (button_data kd) \<longrightarrow>
          list_all (\<lambda>(k, v). truthy v) (button_data kd'))"
  using assms
proof (induction row arbitrary: s kd row' kd' s')
  case Nil
  then show ?case by simp
next
  case (Cons btn row)
  obtain btn1 kd1 s1 where b: "put_keyboard_button e s kd btn = (btn1, kd1, s1)"
    by (cases "put_keyboard_button e s kd btn") auto
  obtain row2 kd2 s2 where r: "put_keyboard_row e s1 kd1 row = (row2, kd2, s2)"
    by (cases "put_keyboard_row e s1 kd1 row") auto
  from Cons.prems b r have eq: "row' = btn1 # row2" "kd' = kd2" "s' = s2" by simp_all
  show ?case unfolding eq using put_keyboard_button_pass [OF b] Cons.IH [OF r] by simp
qed

lemma put_keyboard_rows_pass:
  assumes "put_keyboard_rows e s kd rows = (rows', kd', s')"
  shows "list_all2 (list_all2 passes_falsy) rows rows' \<and>
         (list_all (\<lambda>(k, v). truthy v) (button_data kd) \<longrightarrow>
          list_all (\<lambda>(k, v). truthy v) (button_data kd'))"
  using assms
proof (induction rows arbitrary: s kd rows' kd' s')
  case Nil
  then show ?case by simp
next
  case (Cons row rows)
  obtain row1 kd1 s1 where b: "put_keyboard_row e s kd row = (row1, kd1, s1)"
    by (cases "put_keyboard_row e s kd row") auto
  obtain rows2 kd2 s2 where r: "put_keyboard_rows e s1 kd1 rows = (rows2, kd2, s2)"
    by (cases "put_keyboard_rows e s1 kd1 rows") auto
  from Cons.prems b r have eq: "rows' = row1 # rows2" "kd' = kd2" "s' = s2" by simp_all
  show ?case unfolding eq using put_keyboard_row_pass [OF b] Cons.IH [OF r] by simp
qed

lemma lru_setitem_get:
  "lru_setitem c k v = Inr c' \<Longrightarrow> dict_get (cache_data c') k = Some v"
  by (auto simp: lru_setitem_def lru_update_def dict_get_setitem split: if_splits sum.splits)

text \<open>The three ways a run of \<^verbatim>\<open>__put_keyboard\<close> can end.\<close>

lemma put_keyboard_cases:
  assumes "put_keyboard e s markup = (r, s')"
  obtains (unchanged) "\<not> has_payload markup" "r = Inr markup"
      "s' = s\<lparr>uuid_calls := Suc (uuid_calls s), time_calls := Suc (time_calls s)\<rparr>"
    | (failed) rows kd s3 er where "has_payload markup"
      "put_keyboard_rows e (s\<lparr>uuid_calls := Suc (uuid_calls s), time_calls := Suc (time_calls s)\<rparr>)
         \<lparr>keyboard_uuid = uuid4_hex e (uuid_calls s), button_data = [],
          access_time = time_time e (time_calls s)\<rparr> (inline_keyboard markup) = (rows, kd, s3)"
      "lru_setitem (keyboard_data s) (uuid4_hex e (uuid_calls s)) kd = Inl er"
      "r = Inl er" "s' = s3"
    | (stored) rows kd s3 c where "has_payload markup"
      "put_keyboard_rows e (s\<lparr>uuid_calls := Suc (uuid_calls s), time_calls := Suc (time_calls s)\<rparr>)
         \<lparr>keyboard_uuid = uuid4_hex e (uuid_calls s), button_data = [],
          access_time = time_time e (time_calls s)\<rparr> (inline_keyboard markup) = (rows, kd, s3)"
      "lru_setitem (keyboard_data s) (uuid4_hex e (uuid_calls s)) kd = Inr c"
      "r = Inr \<lparr>inline_keyboard = rows\<rparr>" "s' = s3\<lparr>keyboard_data := c\<rparr>"
      "button_data kd \<noteq> []"
proof (cases "has_payload markup")
  case False
  from put_keyboard_without_payload [OF False, of e s] assms unchanged False show ?thesis by simp
next
  case True
  let ?s2 = "s\<lparr>uuid_calls := Suc (uuid_calls s), time_calls := Suc (time_calls s)\<rparr>"
  let ?kd = "\<lparr>keyboard_uuid = uuid4_hex e (uuid_calls s), button_data = [],
          access_time = time_time e (time_calls s)\<rparr>"
  have i: "KeyboardData_init e (s\<lparr>uuid_calls := Suc (uuid_calls s)\<rparr>) (uuid4_hex e (uuid_calls s)) None None
            = (?kd, ?s2)"
    by (simp add: KeyboardData_init_def)
  obtain rows kd s3 where r: "put_keyboard_rows e ?s2 ?kd (inline_keyboard markup) = (rows, kd, s3)"
    by (cases "put_keyboard_rows e ?s2 ?kd (inline_keyboard markup)") auto
  from put_keyboard_rows_props [OF r] True have ne: "button_data kd \<noteq> []"
    and k3: "keyboard_data s3 = keyboard_data s"
    by (simp_all add: has_payload_def)
  show ?thesis
  proof (cases "lru_setitem (keyboard_data s) (uuid4_hex e (uuid_calls s)) kd")
    case (Inl er)
    with assms i r ne k3 have "r = Inl er" "s' = s3"
      by (simp_all add: put_keyboard_def Let_def)
    with failed True r Inl show ?thesis by blast
  next
    case (Inr c)
    with assms i r ne k3 have "r = Inr \<lparr>inline_keyboard = rows\<rparr>" "s' = s3\<lparr>keyboard_data := c\<rparr>"
      by (simp_all add: put_keyboard_def Let_def)
    with stored True r Inr ne show ?thesis by blast
  qed
qed

lemma put_keyboard_pass:
  assumes "put_keyboard e s markup = (Inr markup', s')"
  shows "list_all2 (list_all2 passes_falsy) (inline_keyboard markup) (inline_keyboard markup')"
    and "has_payload markup \<Longrightarrow>
         \<exists>kd. dict_get (cache_data (keyboard_data s')) (uuid4_hex e (uuid_calls s)) = Some kd \<and>
              button_data kd \<noteq> [] \<and> list_all (\<lambda>(k, v). truthy v) (button_data kd)"
proof -
  show "list_all2 (list_all2 passes_falsy) (inline_keyboard markup) (inline_keyboard markup')"
    using assms
  proof (cases rule: put_keyboard_cases)
    case unchanged
    then show ?thesis by (simp add: passes_falsy_rows_refl)
  next
    case (failed rows kd s3 er)
    then show ?thesis by simp
  next
    case (stored rows kd s3 c)
    from put_keyboard_rows_pass [OF stored(2)] stored(4) show ?thesis by simp
  qed
  assume hp: "has_payload markup"
  show "\<exists>kd. dict_get (cache_data (keyboard_data s')) (uuid4_hex e (uuid_calls s)) = Some kd \<and>
              button_data kd \<noteq> [] \<and> list_all (\<lambda>(k, v). truthy v) (button_data kd)"
    using assms
  proof (cases rule: put_keyboard_cases)
    case unchanged
    with hp show ?thesis by simp
  next
    case (failed rows kd s3 er)
    then show ?thesis by simp
  next
    case (stored rows kd s3 c)
    from put_keyboard_rows_pass [OF stored(2)] have "list_all (\<lambda>(k, v). truthy v) (button_data kd)"
      by simp
    with lru_setitem_get [OF stored(3)] stored(5,6) show ?thesis by simp
  qed
qed

lemma process_callback_query_str:
  assumes "query_data q = PStr d" "d \<noteq> []"
    and "lru_setitem (callback_queries s) (query_id q) (fst (extract_uuids d)) = Inr c"
    and "process_callback_query e s q = (er, s', q')"
  shows "callback_queries s' = c"
    and "query_data q' = fst (get_button_data e (s\<lparr>callback_queries := c\<rparr>) d)"
    and "query_id q' = query_id q"
    and "\<And>m rm. message q = Some m \<Longrightarrow> reply_markup m = Some rm \<Longrightarrow>
           \<exists>m' rm'. message q' = Some m' \<and> reply_markup m' = Some rm' \<and>
             list_all2 (list_all2 passes_falsy) (inline_keyboard rm) (inline_keyboard rm')"
    and "er \<noteq> Some KeyError"
proof -
  let ?s1 = "s\<lparr>callback_queries := c\<rparr>"
  obtain v s2 where g: "get_button_data e ?s1 d = (v, s2)"
    by (cases "get_button_data e ?s1 d") auto
  from get_button_data_inv [OF g] have c2: "callback_queries s2 = c" by simp
  have "callback_queries s' = c \<and> query_data q' = v \<and> query_id q' = query_id q \<and>
        er \<noteq> Some KeyError \<and>
        (\<forall>m rm. message q = Some m \<longrightarrow> reply_markup m = Some rm \<longrightarrow>
           (\<exists>m' rm'. message q' = Some m' \<and> reply_markup m' = Some rm' \<and>
             list_all2 (list_all2 passes_falsy) (inline_keyboard rm) (inline_keyboard rm')))"
  proof (cases "message q")
    case None
    with assms g c2 show ?thesis
      by (auto simp: process_callback_query_def)
  next
    case (Some m)
    show ?thesis
    proof (cases "reply_markup m")
      case None
      with assms g c2 Some show ?thesis
        by (auto simp: process_callback_query_def)
    next
      case (Some rm)
      obtain er3 s3 rows where r: "process_rows e s2 (inline_keyboard rm) = (er3, s3, rows)"
        by (cases "process_rows e s2 (inline_keyboard rm)") auto
      from process_rows_inv [OF r] c2 have "callback_queries s3 = c" "er3 \<noteq> Some KeyError"
        "list_all2 (list_all2 passes_falsy) (inline_keyboard rm) rows" by simp_all
      with assms g r Some \<open>message q = Some m\<close> show ?thesis
        by (auto simp: process_callback_query_def)
    qed
  qed
  with g show "callback_queries s' = c"
    "query_data q' = fst (get_button_data e (s\<lparr>callback_queries := c\<rparr>) d)"
    "query_id q' = query_id q"
    "\<And>m rm. message q = Some m \<Longrightarrow> reply_markup m = Some rm \<Longrightarrow>
           \<exists>m' rm'. message q' = Some m' \<and> reply_markup m' = Some rm' \<and>
             list_all2 (list_all2 passes_falsy) (inline_keyboard rm) (inline_keyboard rm')"
    "er \<noteq> Some KeyError"
    by simp_all
qed

lemma process_callback_query_keyboard:
  assumes "process_callback_query e s q = (er, s', q')"
    and "message q = Some m" "reply_markup m = Some rm"
  shows "\<exists>m' rm'. message q' = Some m' \<and> reply_markup m' = Some rm' \<and>
             list_all2 (list_all2 passes_falsy) (inline_keyboard rm) (inline_keyboard rm')"
proof (cases "truthy (query_data q)")
  case False
  with assms show ?thesis
    by (simp add: process_callback_query_no_data passes_falsy_rows_refl)
next
  case True
  show ?thesis
  proof (cases "query_data q")
    case (PStr d)
    with True have ne: "d \<noteq> []" by simp
    show ?thesis
    proof (cases "lru_setitem (callback_queries s) (query_id q) (fst (extract_uuids d))")
      case (Inl x)
      with assms PStr ne have "q' = q" by (simp add: process_callback_query_def)
      with assms show ?thesis by (simp add: passes_falsy_rows_refl)
    next
      case (Inr c)
      from process_callback_query_str(4) [OF PStr ne Inr assms(1) assms(2,3)] show ?thesis .
    qed
  qed (use True assms in \<open>simp_all add: process_callback_query_def passes_falsy_rows_refl\<close>)
qed

section \<open>Invariants of the operations\<close>







lemma lru_setitem_ValueError:
  "cache_maxsize c < 1 \<Longrightarrow> lru_setitem c k v = Inl ValueError"
  by (simp add: lru_setitem_def)


lemma state_ok_lru_ok:
  "state_ok s \<longleftrightarrow> 1 \<le> maxsize s \<and> lru_ok (maxsize s) (keyboard_data s)
     \<and> lru_ok (maxsize s) (callback_queries s)"
  by (auto simp: state_ok_def lru_ok_def)

lemma lru_setitem_lru_ok:
  assumes "1 \<le> m" "lru_ok m c"
  shows "\<exists>c'. lru_setitem c k v = Inr c' \<and> lru_ok m c'"
proof -
  from assms have "lru_wf c" "1 \<le> cache_maxsize c" "int (length (cache_data c)) \<le> cache_maxsize c"
    by (simp_all add: lru_ok_def)
  from lru_setitem_ok [OF this, of k v] assms show ?thesis by (auto simp: lru_ok_def)
qed


lemma lru_clear_lru_ok: "lru_ok m c \<Longrightarrow> 0 \<le> m \<Longrightarrow> lru_ok m (lru_clear c)"
  using lru_clear_wf [of c] by (auto simp: lru_ok_def lru_wf_def dict_keys_def)

lemma clear_scan_lru_ok:
  "lru_ok m c \<Longrightarrow> clear_scan attr cutoff keys c = (er, c') \<Longrightarrow> lru_ok m c'"
  using clear_scan_inv [of c attr cutoff keys er c'] by (auto simp: lru_ok_def)

lemma clear_lru_ok:
  "lru_ok m c \<Longrightarrow> 0 \<le> m \<Longrightarrow> clear f attr c cutoff = (er, c') \<Longrightarrow> lru_ok m c'"
  by (auto simp: clear_def lru_clear_lru_ok clear_scan_lru_ok split: if_splits)

lemma clear_scan_error:
  assumes "lru_wf c" "set keys \<subseteq> set (dict_keys (cache_data c))"
    and "clear_scan attr cutoff keys c = (Some er, c')"
  shows "er = RuntimeError \<or> (\<exists>v. attr v = Inl er)"
  using assms
proof (induction keys arbitrary: c)
  case Nil
  then show ?case by simp
next
  case (Cons key keys)
  from Cons.prems(2) have "key \<in> set (dict_keys (cache_data c))" by simp
  then obtain v where dg: "dict_get (cache_data c) key = Some v"
    using dict_get_None_iff [of "cache_data c" key] by (cases "dict_get (cache_data c) key") auto
  let ?c1 = "lru_update c key"
  from dg have g: "lru_getitem c key = Inr (v, ?c1)" by (simp add: lru_getitem_def)
  from Cons.prems(1) \<open>key \<in> set (dict_keys (cache_data c))\<close> have wf1: "lru_wf ?c1"
    by (rule lru_update_wf)
  have d1: "cache_data ?c1 = cache_data c" by (simp add: lru_update_simps)
  show ?case
  proof (cases "attr v")
    case (Inl e)
    with Cons.prems(3) g show ?thesis by auto
  next
    case (Inr t)
    show ?thesis
    proof (cases "t < cutoff")
      case True
      from dg d1 have "dict_get (cache_data ?c1) key = Some v" by simp
      with wf1 obtain c2 where "lru_pop ?c1 key = Inr (v, c2)" by (simp add: lru_pop_wf)
      with Cons.prems(3) g Inr True show ?thesis by simp
    next
      case False
      with Cons.prems(3) g Inr have "clear_scan attr cutoff keys ?c1 = (Some er, c')" by simp
      moreover from Cons.prems(2) d1 have "set keys \<subseteq> set (dict_keys (cache_data ?c1))" by simp
      ultimately show ?thesis using Cons.IH [OF wf1] by blast
    qed
  qed
qed

lemma clear_error:
  assumes "lru_wf c" "clear f attr c cutoff = (Some er, c')"
  shows "er = RuntimeError \<or> (\<exists>v. attr v = Inl er)"
  using assms clear_scan_error [of c "dict_keys (cache_data c)" attr _ er c']
  by (auto simp: clear_def split: if_splits)






lemma put_keyboard_state_ok:
  assumes "state_ok s" "put_keyboard e s markup = (r, s')"
  shows "state_ok s' \<and> maxsize s' = maxsize s \<and> (\<exists>markup'. r = Inr markup')"
  using assms(2)
proof (cases rule: put_keyboard_cases)
  case unchanged
  with assms(1) show ?thesis by (simp add: state_ok_def)
next
  case (failed rows kd s3 er)
  from assms(1) have "1 \<le> maxsize s" "lru_ok (maxsize s) (keyboard_data s)"
    by (simp_all add: state_ok_lru_ok)
  from lru_setitem_lru_ok [OF this, of "uuid4_hex e (uuid_calls s)" kd] failed(3)
  show ?thesis by simp
next
  case (stored rows kd s3 c)
  from assms(1) have m: "1 \<le> maxsize s" "lru_ok (maxsize s) (keyboard_data s)"
    by (simp_all add: state_ok_lru_ok)
  from lru_setitem_lru_ok [OF m, of "uuid4_hex e (uuid_calls s)" kd] stored(3)
  have c: "lru_ok (maxsize s) c" by simp
  from put_keyboard_rows_props [OF stored(2)] have
    "callback_queries s3 = callback_queries s" "maxsize s3 = maxsize s" by simp_all
  with assms(1) c stored(4,5) show ?thesis by (simp add: state_ok_lru_ok)
qed

lemma process_callback_query_state_ok:
  assumes "state_ok s" "process_callback_query e s q = (er, s', q')"
  shows "state_ok s' \<and> maxsize s' = maxsize s \<and> er \<noteq> Some KeyError"
proof (cases "truthy (query_data q)")
  case False
  with assms show ?thesis by (simp add: process_callback_query_no_data)
next
  case True
  show ?thesis
  proof (cases "query_data q")
    case (PStr d)
    with True have ne: "d \<noteq> []" by simp
    from assms(1) have m: "1 \<le> maxsize s" "lru_ok (maxsize s) (callback_queries s)"
      by (simp_all add: state_ok_lru_ok)
    from lru_setitem_lru_ok [OF m, of "query_id q" "fst (extract_uuids d)"] obtain c where
      c: "lru_setitem (callback_queries s) (query_id q) (fst (extract_uuids d)) = Inr c"
        "lru_ok (maxsize s) c" by blast
    let ?s1 = "s\<lparr>callback_queries := c\<rparr>"
    from assms(1) c have ok1: "state_ok ?s1" by (simp add: state_ok_lru_ok)
    obtain v s2 where g: "get_button_data e ?s1 d = (v, s2)"
      by (cases "get_button_data e ?s1 d") auto
    from get_button_data_state_ok [OF ok1 g] get_button_data_inv [OF g]
    have ok2: "state_ok s2" "maxsize s2 = maxsize s" by simp_all
    show ?thesis
    proof (cases "message q")
      case None
      with assms PStr ne c g ok2 show ?thesis
        by (auto simp: process_callback_query_def)
    next
      case (Some msg)
      show ?thesis
      proof (cases "reply_markup msg")
        case None
        with assms PStr ne c g ok2 Some show ?thesis
          by (auto simp: process_callback_query_def)
      next
        case (Some rm)
        obtain er3 s3 rows where r: "process_rows e s2 (inline_keyboard rm) = (er3, s3, rows)"
          by (cases "process_rows e s2 (inline_keyboard rm)") auto
        from process_rows_inv [OF r] ok2 have "state_ok s3" "maxsize s3 = maxsize s"
          "er3 \<noteq> Some KeyError" by simp_all
        with assms PStr ne c g r Some \<open>message q = Some msg\<close> show ?thesis
          by (auto simp: process_callback_query_def)
      qed
    qed
  qed (use True assms in \<open>auto simp: process_callback_query_def\<close>)
qed



lemma clear_callback_data_state_ok:
  assumes "state_ok s" "clear_callback_data f s cutoff = (er, s')"
  shows "state_ok s' \<and> maxsize s' = maxsize s \<and> er \<noteq> Some KeyError"
proof -
  obtain er1 c where c: "clear f KeyboardData_access_time (keyboard_data s) cutoff = (er1, c)"
    by (cases "clear f KeyboardData_access_time (keyboard_data s) cutoff") auto
  with assms(2) have e: "er = er1" "s' = s\<lparr>keyboard_data := c\<rparr>"
    by (simp_all add: clear_callback_data_def)
  from assms(1) have "lru_ok (maxsize s) (keyboard_data s)" "0 \<le> maxsize s"
    by (simp_all add: state_ok_lru_ok)
  from clear_lru_ok [OF this c] assms(1) e have ok: "state_ok s'" "maxsize s' = maxsize s"
    by (simp_all add: state_ok_lru_ok)
  have "er1 \<noteq> Some KeyError"
  proof
    assume "er1 = Some KeyError"
    with c assms(1) clear_error [of "keyboard_data s" f KeyboardData_access_time cutoff KeyError c]
    show False by (simp add: state_ok_def KeyboardData_access_time_def)
  qed
  with ok e show ?thesis by simp
qed

lemma clear_callback_queries_state_ok:
  assumes "state_ok s" "clear_callback_queries f s cutoff = (er, s')"
  shows "state_ok s' \<and> maxsize s' = maxsize s \<and> er \<noteq> Some KeyError"
proof -
  obtain er1 c where c: "clear f str_access_time (callback_queries s) cutoff = (er1, c)"
    by (cases "clear f str_access_time (callback_queries s) cutoff") auto
  with assms(2) have e: "er = er1" "s' = s\<lparr>callback_queries := c\<rparr>"
    by (simp_all add: clear_callback_queries_def)
  from assms(1) have "lru_ok (maxsize s) (callback_queries s)" "0 \<le> maxsize s"
    by (simp_all add: state_ok_lru_ok)
  from clear_lru_ok [OF this c] assms(1) e have ok: "state_ok s'" "maxsize s' = maxsize s"
    by (simp_all add: state_ok_lru_ok)
  have "er1 \<noteq> Some KeyError"
  proof
    assume "er1 = Some KeyError"
    with c assms(1) clear_error [of "callback_queries s" f str_access_time cutoff KeyError c]
    show False by (simp add: state_ok_def str_access_time_def)
  qed
  with ok e show ?thesis by simp
qed


section \<open>Reachable states, eviction order, dropping and restoring\<close>







lemma drop_data_missing:
  "\<not> lru_contains (callback_queries s) (query_id q) \<Longrightarrow> drop_data s q = (Some KeyError, s)"
  by (simp add: drop_data_def lru_pop_def)

lemma lru_pop_removed:
  assumes "lru_wf c" "lru_pop c k = Inr (v, c')"
  shows "\<not> lru_contains c' k" and "\<And>k'. k' \<noteq> k \<Longrightarrow> dict_get (cache_data c') k' = dict_get (cache_data c) k'"
proof -
  from assms have c': "c' = c\<lparr>cache_data := dict_delitem (cache_data c) k,
                             cache_order := remove1 k (cache_order c)\<rparr>"
    by (simp add: lru_pop_wf split: option.splits)
  from assms(1) show "\<not> lru_contains c' k"
    unfolding c' by (simp add: lru_contains_def lru_wf_def dict_keys_delitem)
  show "\<And>k'. k' \<noteq> k \<Longrightarrow> dict_get (cache_data c') k' = dict_get (cache_data c) k'"
    unfolding c' by (simp add: dict_get_delitem_other)
qed

lemma drop_keyboard_removed:
  assumes "lru_wf (keyboard_data s)"
  shows "\<not> lru_contains (keyboard_data (drop_keyboard s kid)) kid"
    and "\<And>k'. k' \<noteq> kid \<Longrightarrow> dict_get (cache_data (keyboard_data (drop_keyboard s kid))) k'
            = dict_get (cache_data (keyboard_data s)) k'"
    and "callback_queries (drop_keyboard s kid) = callback_queries s"
proof -
  show "callback_queries (drop_keyboard s kid) = callback_queries s"
    by (simp add: drop_keyboard_def split: sum.splits)
  show "\<not> lru_contains (keyboard_data (drop_keyboard s kid)) kid"
  proof (cases "lru_pop (keyboard_data s) kid")
    case (Inl x)
    from lru_pop_Inl [OF Inl] Inl show ?thesis by (simp add: drop_keyboard_def)
  next
    case (Inr p)
    then obtain v c where p: "lru_pop (keyboard_data s) kid = Inr (v, c)" by (cases p) auto
    from lru_pop_removed(1) [OF assms p] p show ?thesis by (simp add: drop_keyboard_def)
  qed
  fix k' assume n: "k' \<noteq> kid"
  show "dict_get (cache_data (keyboard_data (drop_keyboard s kid))) k'
            = dict_get (cache_data (keyboard_data s)) k'"
  proof (cases "lru_pop (keyboard_data s) kid")
    case (Inl x)
    then show ?thesis by (simp add: drop_keyboard_def)
  next
    case (Inr p)
    then obtain v c where p: "lru_pop (keyboard_data s) kid = Inr (v, c)" by (cases p) auto
    from lru_pop_removed(2) [OF assms p n] p show ?thesis by (simp add: drop_keyboard_def)
  qed
qed

lemma drop_data_present:
  assumes "state_ok s" "dict_get (cache_data (callback_queries s)) (query_id q) = Some kid"
  shows "fst (drop_data s q) = None"
    and "\<not> lru_contains (callback_queries (snd (drop_data s q))) (query_id q)"
    and "\<not> lru_contains (keyboard_data (snd (drop_data s q))) kid"
    and "\<And>i. i \<noteq> query_id q \<Longrightarrow> dict_get (cache_data (callback_queries (snd (drop_data s q)))) i
            = dict_get (cache_data (callback_queries s)) i"
    and "\<And>k. k \<noteq> kid \<Longrightarrow> dict_get (cache_data (keyboard_data (snd (drop_data s q)))) k
            = dict_get (cache_data (keyboard_data s)) k"
proof -
  from assms(1) have wq: "lru_wf (callback_queries s)" and wk: "lru_wf (keyboard_data s)"
    by (simp_all add: state_ok_def)
  let ?c = "(callback_queries s)\<lparr>cache_data := dict_delitem (cache_data (callback_queries s)) (query_id q),
               cache_order := remove1 (query_id q) (cache_order (callback_queries s))\<rparr>"
  from wq assms(2) have p: "lru_pop (callback_queries s) (query_id q) = Inr (kid, ?c)"
    by (simp add: lru_pop_wf)
  let ?s1 = "s\<lparr>callback_queries := ?c\<rparr>"
  from p have dd: "drop_data s q = (None, drop_keyboard ?s1 kid)" by (simp add: drop_data_def)
  from wk have wk1: "lru_wf (keyboard_data ?s1)" by simp
  note dk = drop_keyboard_removed [OF wk1, where kid = kid]
  note pr = lru_pop_removed [OF wq p]
  show "fst (drop_data s q) = None" by (simp add: dd)
  show "\<not> lru_contains (callback_queries (snd (drop_data s q))) (query_id q)"
    using pr(1) dk(3) by (simp add: dd)
  show "\<not> lru_contains (keyboard_data (snd (drop_data s q))) kid"
    using dk(1) by (simp add: dd)
  show "\<And>i. i \<noteq> query_id q \<Longrightarrow> dict_get (cache_data (callback_queries (snd (drop_data s q)))) i
            = dict_get (cache_data (callback_queries s)) i"
    using pr(2) dk(3) by (simp add: dd)
  show "\<And>k. k \<noteq> kid \<Longrightarrow> dict_get (cache_data (keyboard_data (snd (drop_data s q)))) k
            = dict_get (cache_data (keyboard_data s)) k"
    using dk(2) by (simp add: dd)
qed



section \<open>Resolving tokens\<close>




section \<open>Recording the event-to-keyboard association\<close>

text \<open>
  C7. In a cache with a positive capacity, \<^verbatim>\<open>process_callback_query\<close> returns an event
  without top-level data (\<^verbatim>\<open>None\<close> or the empty string) unchanged and leaves the state
  unchanged. For an event with a non-empty data string, the association store of the
  result is the store after \<^verbatim>\<open>_callback_queries[id] = extract_uuids(data)[0]\<close>, it maps
  the event identifier to the keyboard identifier of the token, and the data slot holds
  what the resolution gives on the state in which the association is already recorded,
  whether that is the payload or the \<^verbatim>\<open>InvalidCallbackData\<close> value.
\<close>

theorem process_callback_query_records_association:
  assumes "state_ok s"
  shows "(\<not> truthy (query_data q) \<longrightarrow> process_callback_query e s q = (None, s, q)) \<and>
   (\<forall>d. query_data q = PStr d \<and> d \<noteq> [] \<longrightarrow>
     (\<exists>c. lru_setitem (callback_queries s) (query_id q) (fst (extract_uuids d)) = Inr c \<and>
          callback_queries (fst (snd (process_callback_query e s q))) = c \<and>
          dict_get (cache_data c) (query_id q) = Some (fst (extract_uuids d)) \<and>
          query_data (snd (snd (process_callback_query e s q)))
            = fst (get_button_data e (s\<lparr>callback_queries := c\<rparr>) d)))"
proof (intro conjI allI impI)
  assume "\<not> truthy (query_data q)"
  then show "process_callback_query e s q = (None, s, q)"
    by (rule process_callback_query_no_data)
next
  fix d assume d: "query_data q = PStr d \<and> d \<noteq> []"
  from assms have "lru_wf (callback_queries s)" "1 \<le> cache_maxsize (callback_queries s)"
    "int (length (cache_data (callback_queries s))) \<le> cache_maxsize (callback_queries s)"
    by (simp_all add: state_ok_def)
  from lru_setitem_ok [OF this, of "query_id q" "fst (extract_uuids d)"] obtain c where
    c: "lru_setitem (callback_queries s) (query_id q) (fst (extract_uuids d)) = Inr c"
      "dict_get (cache_data c) (query_id q) = Some (fst (extract_uuids d))"
    by blast
  obtain er s' q' where p: "process_callback_query e s q = (er, s', q')"
    by (cases "process_callback_query e s q") auto
  from d have d1: "query_data q = PStr d" and d2: "d \<noteq> []" by simp_all
  from process_callback_query_str(1,2) [OF d1 d2 c(1) p] p c
  show "\<exists>c. lru_setitem (callback_queries s) (query_id q) (fst (extract_uuids d)) = Inr c \<and>
          callback_queries (fst (snd (process_callback_query e s q))) = c \<and>
          dict_get (cache_data c) (query_id q) = Some (fst (extract_uuids d)) \<and>
          query_data (snd (snd (process_callback_query e s q)))
            = fst (get_button_data e (s\<lparr>callback_queries := c\<rparr>) d)"
    by simp
qed

theorem process_callback_query_records_association_witness:
  "state_ok example_state \<and>
   \<not> truthy (query_data example_query_no_data) \<and>
   process_callback_query example_env example_state example_query_no_data
     = (None, example_state, example_query_no_data) \<and>
   query_data example_query = PStr example_token_unknown \<and> example_token_unknown \<noteq> [] \<and>
   dict_get (cache_data (callback_queries
       (fst (snd (process_callback_query example_env example_state example_query)))))
     (query_id example_query) = Some (fst (extract_uuids example_token_unknown)) \<and>
   query_data (snd (snd (process_callback_query example_env example_state example_query)))
     = InvalidCallbackData example_token_unknown"
proof -
  have ok: "state_ok example_state" by code_simp
  have a: "\<not> truthy (query_data example_query_no_data)" by code_simp
  have b: "query_data example_query = PStr example_token_unknown \<and> example_token_unknown \<noteq> []"
    by code_simp
  have r: "query_data (snd (snd (process_callback_query example_env example_state example_query)))
     = InvalidCallbackData example_token_unknown" by code_simp
  note t1 = process_callback_query_records_association [OF ok, of example_query_no_data example_env]
  note t2 = process_callback_query_records_association [OF ok, of example_query example_env]
  from t1 a have c1: "process_callback_query example_env example_state example_query_no_data
     = (None, example_state, example_query_no_data)" by blast
  from t2 b have c2: "dict_get (cache_data (callback_queries
       (fst (snd (process_callback_query example_env example_state example_query)))))
     (query_id example_query) = Some (fst (extract_uuids example_token_unknown))" by blast
  from ok a b c1 c2 r show ?thesis by blast
qed

section \<open>Truthiness of payloads\<close>

text \<open>
  C10. Payload presence is tested by truthiness. The empty string is not truthy. In the
  keyboard returned by \<^verbatim>\<open>put_keyboard\<close> every button whose payload is not truthy is the
  input button, and the record stored for the keyboard holds truthy payloads only. In the
  keyboard attached to an event, \<^verbatim>\<open>process_callback_query\<close> leaves every button whose
  payload is not truthy as it is. An event whose data is the empty string is returned
  unchanged, with the state unchanged.
\<close>

theorem falsy_payloads_are_skipped:
  "\<not> truthy (PStr '''') \<and>
   (put_keyboard e s markup = (Inr markup', s') \<longrightarrow>
      list_all2 (list_all2 passes_falsy) (inline_keyboard markup) (inline_keyboard markup') \<and>
      (has_payload markup \<longrightarrow>
        (\<exists>kd. dict_get (cache_data (keyboard_data s')) (uuid4_hex e (uuid_calls s)) = Some kd \<and>
              list_all (\<lambda>(k, v). truthy v) (button_data kd)))) \<and>
   (process_callback_query e s q = (er, s1, q') \<and> message q = Some m \<and> reply_markup m = Some rm \<longrightarrow>
      (\<exists>m' rm'. message q' = Some m' \<and> reply_markup m' = Some rm' \<and>
         list_all2 (list_all2 passes_falsy) (inline_keyboard rm) (inline_keyboard rm'))) \<and>
   (query_data q = PStr '''' \<longrightarrow> process_callback_query e s q = (None, s, q))"
proof (intro conjI impI)
  show "\<not> truthy (PStr '''')" by simp
next
  assume p: "put_keyboard e s markup = (Inr markup', s')"
  from put_keyboard_pass(1) [OF p]
  show "list_all2 (list_all2 passes_falsy) (inline_keyboard markup) (inline_keyboard markup')" .
next
  assume p: "put_keyboard e s markup = (Inr markup', s')" and h: "has_payload markup"
  from put_keyboard_pass(2) [OF p h]
  show "\<exists>kd. dict_get (cache_data (keyboard_data s')) (uuid4_hex e (uuid_calls s)) = Some kd \<and>
              list_all (\<lambda>(k, v). truthy v) (button_data kd)" by blast
next
  assume "process_callback_query e s q = (er, s1, q') \<and> message q = Some m \<and> reply_markup m = Some rm"
  then show "\<exists>m' rm'. message q' = Some m' \<and> reply_markup m' = Some rm' \<and>
         list_all2 (list_all2 passes_falsy) (inline_keyboard rm) (inline_keyboard rm')"
    using process_callback_query_keyboard by blast
next
  assume "query_data q = PStr ''''"
  then show "process_callback_query e s q = (None, s, q)"
    by (simp add: process_callback_query_no_data)
qed

theorem falsy_payloads_are_skipped_witness:
  "put_keyboard example_env example_empty_state example_payload_markup
     = (Inr example_payload_markup_sent,
        snd (put_keyboard example_env example_empty_state example_payload_markup)) \<and>
   has_payload example_payload_markup \<and>
   list_all2 (list_all2 passes_falsy) (inline_keyboard example_payload_markup)
     (inline_keyboard example_payload_markup_sent) \<and>
   (\<exists>kd. dict_get (cache_data (keyboard_data
             (snd (put_keyboard example_env example_empty_state example_payload_markup))))
           (uuid4_hex example_env (uuid_calls example_empty_state)) = Some kd \<and>
         list_all (\<lambda>(k, v). truthy v) (button_data kd)) \<and>
   query_data example_query_no_data = PStr '''' \<and>
   process_callback_query example_env example_state example_query_no_data
     = (None, example_state, example_query_no_data)"
proof -
  have f: "fst (put_keyboard example_env example_empty_state example_payload_markup)
     = Inr example_payload_markup_sent" by code_simp
  have p: "put_keyboard example_env example_empty_state example_payload_markup
     = (Inr example_payload_markup_sent,
        snd (put_keyboard example_env example_empty_state example_payload_markup))"
    by (simp add: f [symmetric])
  have h: "has_payload example_payload_markup" by code_simp
  have q: "query_data example_query_no_data = PStr ''''" by code_simp
  note t = falsy_payloads_are_skipped [where e = example_env and s = example_empty_state
      and markup = example_payload_markup and markup' = example_payload_markup_sent
      and s' = "snd (put_keyboard example_env example_empty_state example_payload_markup)"]
  note u = falsy_payloads_are_skipped [where e = example_env and s = example_state
      and q = example_query_no_data]
  from t p h have a: "list_all2 (list_all2 passes_falsy) (inline_keyboard example_payload_markup)
     (inline_keyboard example_payload_markup_sent)"
    and b: "\<exists>kd. dict_get (cache_data (keyboard_data
             (snd (put_keyboard example_env example_empty_state example_payload_markup))))
           (uuid4_hex example_env (uuid_calls example_empty_state)) = Some kd \<and>
         list_all (\<lambda>(k, v). truthy v) (button_data kd)"
    by blast+
  from u q have c: "process_callback_query example_env example_state example_query_no_data
     = (None, example_state, example_query_no_data)" by blast
  from p h a b q c show ?thesis by blast
qed

section \<open>Records at the moment of insertion\<close>




section \<open>Dropping the data of an event\<close>

text \<open>
  C6. In a cache with a positive capacity, \<^verbatim>\<open>drop_data\<close> raises \<^verbatim>\<open>KeyError\<close> exactly
  when the event identifier has no association, and then changes nothing. When the
  association exists, nothing is raised, the association and the keyboard record it names
  are gone afterwards (whether or not the record was still in the store), every other
  entry of both stores is kept, and a second \<^verbatim>\<open>drop_data\<close> for the same event raises
  \<^verbatim>\<open>KeyError\<close>. No other operation ends in a \<^verbatim>\<open>KeyError\<close>.
\<close>

theorem drop_data_not_found:
  assumes "state_ok s"
  shows "(fst (drop_data s q) = Some KeyError \<longleftrightarrow> \<not> lru_contains (callback_queries s) (query_id q)) \<and>
   (\<not> lru_contains (callback_queries s) (query_id q) \<longrightarrow> snd (drop_data s q) = s) \<and>
   (\<forall>kid. dict_get (cache_data (callback_queries s)) (query_id q) = Some kid \<longrightarrow>
      fst (drop_data s q) = None \<and>
      \<not> lru_contains (callback_queries (snd (drop_data s q))) (query_id q) \<and>
      \<not> lru_contains (keyboard_data (snd (drop_data s q))) kid \<and>
      (\<forall>i. i \<noteq> query_id q \<longrightarrow>
         dict_get (cache_data (callback_queries (snd (drop_data s q)))) i
           = dict_get (cache_data (callback_queries s)) i) \<and>
      (\<forall>k. k \<noteq> kid \<longrightarrow>
         dict_get (cache_data (keyboard_data (snd (drop_data s q)))) k
           = dict_get (cache_data (keyboard_data s)) k) \<and>
      fst (drop_data (snd (drop_data s q)) q) = Some KeyError) \<and>
   fst (put_keyboard e s markup) \<noteq> Inl KeyError \<and>
   fst (process_callback_query e s q2) \<noteq> Some KeyError \<and>
   fst (clear_callback_data f s cutoff) \<noteq> Some KeyError \<and>
   fst (clear_callback_queries f s cutoff) \<noteq> Some KeyError"
proof -
  have present: "fst (drop_data s q) = None \<and>
      \<not> lru_contains (callback_queries (snd (drop_data s q))) (query_id q) \<and>
      \<not> lru_contains (keyboard_data (snd (drop_data s q))) kid \<and>
      (\<forall>i. i \<noteq> query_id q \<longrightarrow>
         dict_get (cache_data (callback_queries (snd (drop_data s q)))) i
           = dict_get (cache_data (callback_queries s)) i) \<and>
      (\<forall>k. k \<noteq> kid \<longrightarrow>
         dict_get (cache_data (keyboard_data (snd (drop_data s q)))) k
           = dict_get (cache_data (keyboard_data s)) k) \<and>
      fst (drop_data (snd (drop_data s q)) q) = Some KeyError"
    if k: "dict_get (cache_data (callback_queries s)) (query_id q) = Some kid" for kid
  proof -
    note d = drop_data_present [OF assms k]
    from d(2) have "fst (drop_data (snd (drop_data s q)) q) = Some KeyError"
      by (simp add: drop_data_missing)
    with d show ?thesis by simp
  qed
  have iff: "fst (drop_data s q) = Some KeyError \<longleftrightarrow> \<not> lru_contains (callback_queries s) (query_id q)"
  proof (cases "dict_get (cache_data (callback_queries s)) (query_id q)")
    case None
    then have "\<not> lru_contains (callback_queries s) (query_id q)"
      by (simp add: lru_contains_def dict_get_None_iff)
    then show ?thesis by (simp add: drop_data_missing)
  next
    case (Some kid)
    then have "lru_contains (callback_queries s) (query_id q)"
      by (simp add: lru_contains_def dict_get_Some_key)
    with present [OF Some] show ?thesis by simp
  qed
  have miss: "\<not> lru_contains (callback_queries s) (query_id q) \<longrightarrow> snd (drop_data s q) = s"
    by (simp add: drop_data_missing)
  have pk: "fst (put_keyboard e s markup) \<noteq> Inl KeyError"
    using put_keyboard_state_ok [OF assms, of e markup "fst (put_keyboard e s markup)"
        "snd (put_keyboard e s markup)"] by auto
  have pc: "fst (process_callback_query e s q2) \<noteq> Some KeyError"
    using process_callback_query_state_ok [OF assms, of e q2 "fst (process_callback_query e s q2)"
        "fst (snd (process_callback_query e s q2))" "snd (snd (process_callback_query e s q2))"]
    by simp
  have cd: "fst (clear_callback_data f s cutoff) \<noteq> Some KeyError"
    using clear_callback_data_state_ok [OF assms, of f cutoff "fst (clear_callback_data f s cutoff)"
        "snd (clear_callback_data f s cutoff)"] by simp
  have cq: "fst (clear_callback_queries f s cutoff) \<noteq> Some KeyError"
    using clear_callback_queries_state_ok [OF assms, of f cutoff "fst (clear_callback_queries f s cutoff)"
        "snd (clear_callback_queries f s cutoff)"] by simp
  from iff miss present pk pc cd cq show ?thesis by blast
qed

theorem drop_data_not_found_witness:
  "state_ok example_state \<and>
   \<not> lru_contains (callback_queries example_state) (query_id example_query) \<and>
   fst (drop_data example_state example_query) = Some KeyError \<and>
   dict_get (cache_data (callback_queries example_state)) (query_id example_query_first)
     = Some (example_uuid 10) \<and>
   fst (drop_data example_state example_query_first) = None \<and>
   \<not> lru_contains (keyboard_data (snd (drop_data example_state example_query_first))) (example_uuid 10) \<and>
   fst (drop_data (snd (drop_data example_state example_query_first)) example_query_first)
     = Some KeyError \<and>
   state_ok example_state_unknown_keyboard \<and>
   dict_get (cache_data (callback_queries example_state_unknown_keyboard)) (query_id example_query)
     = Some (example_uuid 5) \<and>
   \<not> lru_contains (keyboard_data example_state_unknown_keyboard) (example_uuid 5) \<and>
   fst (drop_data example_state_unknown_keyboard example_query) = None"
proof -
  have ok: "state_ok example_state" by code_simp
  have a: "\<not> lru_contains (callback_queries example_state) (query_id example_query)" by code_simp
  have b: "dict_get (cache_data (callback_queries example_state)) (query_id example_query_first)
     = Some (example_uuid 10)" by code_simp
  have ok2: "state_ok example_state_unknown_keyboard" by code_simp
  have c: "dict_get (cache_data (callback_queries example_state_unknown_keyboard)) (query_id example_query)
     = Some (example_uuid 5)" by code_simp
  have d: "\<not> lru_contains (keyboard_data example_state_unknown_keyboard) (example_uuid 5)"
    by code_simp
  note t1 = drop_data_not_found [OF ok, where q = example_query]
  note t2 = drop_data_not_found [OF ok, where q = example_query_first]
  note t3 = drop_data_not_found [OF ok2, where q = example_query]
  from t1 a have r1: "fst (drop_data example_state example_query) = Some KeyError" by blast
  from t2 b have r2: "fst (drop_data example_state example_query_first) = None"
    "\<not> lru_contains (keyboard_data (snd (drop_data example_state example_query_first))) (example_uuid 10)"
    "fst (drop_data (snd (drop_data example_state example_query_first)) example_query_first)
     = Some KeyError" by blast+
  from t3 c have r3: "fst (drop_data example_state_unknown_keyboard example_query) = None" by blast
  from ok a r1 b r2 ok2 c d r3 show ?thesis by blast
qed

section \<open>Capacity and eviction\<close>



section \<open>Clearing the stores\<close>

text \<open>
  What \<^verbatim>\<open>__clear\<close> does on a consistent store. Without a truthy cutoff both stores are
  emptied. With one, the keyboard store is left as it is when no record is older;
  otherwise exactly one record is removed and \<^verbatim>\<open>RuntimeError\<close> is raised. The
  association store is left as it is, and \<^verbatim>\<open>AttributeError\<close> is raised unless the
  store is empty.
\<close>

lemma clear_scan_records:
  assumes "lru_wf c" "set keys \<subseteq> set (dict_keys (cache_data c))"
    and "clear_scan KeyboardData_access_time cutoff keys c = (er, c')"
  shows "if list_ex (older cutoff (cache_data c)) keys
         then er = Some RuntimeError \<and> Suc (length (cache_data c')) = length (cache_data c)
         else er = None \<and> cache_data c' = cache_data c"
  using assms
proof (induction keys arbitrary: c)
  case Nil
  then show ?case by simp
next
  case (Cons key keys)
  from Cons.prems(2) have kin: "key \<in> set (dict_keys (cache_data c))" by simp
  then obtain v where dg: "dict_get (cache_data c) key = Some v"
    using dict_get_None_iff [of "cache_data c" key] by (cases "dict_get (cache_data c) key") auto
  let ?c1 = "lru_update c key"
  from dg have g: "lru_getitem c key = Inr (v, ?c1)" by (simp add: lru_getitem_def)
  from Cons.prems(1) kin have wf1: "lru_wf ?c1" by (rule lru_update_wf)
  have d1: "cache_data ?c1 = cache_data c" by (simp add: lru_update_simps)
  have at: "KeyboardData_access_time v = Inr (access_time v)"
    by (simp add: KeyboardData_access_time_def)
  show ?case
  proof (cases "access_time v < cutoff")
    case True
    from dg d1 have "dict_get (cache_data ?c1) key = Some v" by simp
    with wf1 have p: "lru_pop ?c1 key = Inr (v, ?c1\<lparr>cache_data := dict_delitem (cache_data ?c1) key,
        cache_order := remove1 key (cache_order ?c1)\<rparr>)"
      by (simp add: lru_pop_wf)
    from Cons.prems(3) g True p have "er = Some RuntimeError"
      and "cache_data c' = dict_delitem (cache_data c) key"
      by (auto simp: at d1)
    with True dg length_dict_delitem [OF kin] show ?thesis
      by (simp add: older_def)
  next
    case False
    with Cons.prems(3) g have r: "clear_scan KeyboardData_access_time cutoff keys ?c1 = (er, c')"
      by (simp add: at)
    from Cons.prems(2) d1 have "set keys \<subseteq> set (dict_keys (cache_data ?c1))" by simp
    from Cons.IH [OF wf1 this r] d1 False dg show ?thesis
      by (simp add: older_def)
  qed
qed

lemma clear_callback_data_with_cutoff:
  assumes "state_ok s" "cutoff_truthy cutoff"
  shows "if list_ex (older (effective_cutoff f (the cutoff)) (cache_data (keyboard_data s)))
              (dict_keys (cache_data (keyboard_data s)))
         then fst (clear_callback_data f s cutoff) = Some RuntimeError \<and>
              Suc (length (cache_data (keyboard_data (snd (clear_callback_data f s cutoff)))))
                = length (cache_data (keyboard_data s))
         else fst (clear_callback_data f s cutoff) = None \<and>
              cache_data (keyboard_data (snd (clear_callback_data f s cutoff)))
                = cache_data (keyboard_data s)"
proof -
  let ?c = "keyboard_data s"
  let ?r = "clear_scan KeyboardData_access_time (effective_cutoff f (the cutoff))
              (dict_keys (cache_data ?c)) ?c"
  from assms(1) have wf: "lru_wf ?c" by (simp add: state_ok_def)
  have r: "?r = (fst ?r, snd ?r)" by simp
  from assms(2) have "clear_callback_data f s cutoff = (fst ?r, s\<lparr>keyboard_data := snd ?r\<rparr>)"
    by (simp add: clear_callback_data_def clear_def case_prod_beta)
  with clear_scan_records [OF wf subset_refl r] show ?thesis by simp
qed

lemma clear_callback_data_without_cutoff:
  assumes "state_ok s" "\<not> cutoff_truthy cutoff"
  shows "fst (clear_callback_data f s cutoff) = None \<and>
         cache_data (keyboard_data (snd (clear_callback_data f s cutoff))) = []"
  using assms lru_clear_wf [of "keyboard_data s"]
  by (simp add: clear_callback_data_def clear_def state_ok_def)

lemma clear_callback_queries_without_cutoff:
  assumes "state_ok s" "\<not> cutoff_truthy cutoff"
  shows "fst (clear_callback_queries f s cutoff) = None \<and>
         cache_data (callback_queries (snd (clear_callback_queries f s cutoff))) = []"
  using assms lru_clear_wf [of "callback_queries s"]
  by (simp add: clear_callback_queries_def clear_def state_ok_def)

lemma clear_callback_queries_with_cutoff:
  assumes "cutoff_truthy cutoff"
  shows "if cache_data (callback_queries s) = []
         then clear_callback_queries f s cutoff = (None, s)
         else fst (clear_callback_queries f s cutoff) = Some AttributeError \<and>
              cache_data (callback_queries (snd (clear_callback_queries f s cutoff)))
                = cache_data (callback_queries s)"
proof (cases "cache_data (callback_queries s)")
  case Nil
  with assms show ?thesis
    by (simp add: clear_callback_queries_def clear_def dict_keys_def)
next
  case (Cons p d)
  obtain k v where p: "p = (k, v)" by (cases p) auto
  with Cons have "dict_get (cache_data (callback_queries s)) k = Some v"
    by (simp add: dict_get_def)
  with assms Cons p show ?thesis
    by (simp add: clear_callback_queries_def clear_def dict_keys_def lru_getitem_def
        str_access_time_def lru_update_simps)
qed

text \<open>
  C4. With a cutoff given, \<^verbatim>\<open>clear_callback_data\<close> should remove exactly the keyboard
  records whose access time is below the cutoff. On the store restored from the example
  snapshot (access times 1 and 2) and the cutoff 3, the code removes the first record
  only and raises \<^verbatim>\<open>RuntimeError\<close>, since the dictionary changes size while its items
  are iterated; and the cutoff 0 is falsy, so it empties the store although no access time
  is below 0.
\<close>

theorem clear_callback_data_stops_after_first_drop:
  "CallbackDataCache_init example_env 0 0 2 (Some example_snapshot) = Inr example_state \<and>
   fst (clear_callback_data (\<lambda>d::real. d) example_state (Some (Timestamp 3)))
     = Some RuntimeError \<and>
   dict_keys (cache_data (keyboard_data
       (snd (clear_callback_data (\<lambda>d::real. d) example_state (Some (Timestamp 3))))))
     = [example_uuid 11] \<and>
   dict_keys (cache_data (keyboard_data
       (snd (clear_callback_data (\<lambda>d::real. d) example_state (Some (Timestamp 0))))))
     = []"
  by code_simp

text \<open>
  C1. With a cutoff given, \<^verbatim>\<open>clear_callback_queries\<close> should remove the associations
  older than the cutoff without failing. The stored values are plain strings with no
  \<^verbatim>\<open>access_time\<close>: on the example state (one association) and the cutoff 3 the code
  raises \<^verbatim>\<open>AttributeError\<close> and removes nothing.
\<close>

theorem clear_callback_queries_raises_attribute_error:
  "CallbackDataCache_init example_env 0 0 2 (Some example_snapshot) = Inr example_state \<and>
   fst (clear_callback_queries (\<lambda>d::real. d) example_state (Some (Timestamp 3)))
     = Some AttributeError \<and>
   cache_data (callback_queries
       (snd (clear_callback_queries (\<lambda>d::real. d) example_state (Some (Timestamp 3)))))
     = [(''query-1'', example_uuid 10)]"
  by code_simp

section \<open>Keyboards without payload\<close>

text \<open>
  C2 (as amended). For every keyboard in which no button carries a truthy payload,
  \<^verbatim>\<open>put_keyboard\<close> returns the input keyboard and leaves both stores unchanged: no
  keyboard record is created. It does draw one identifier (the keyboard identifier,
  generated before the buttons are looked at) and one clock reading, which are discarded.
\<close>

theorem put_keyboard_no_payload:
  "\<not> has_payload markup \<Longrightarrow>
     put_keyboard e s markup =
       (Inr markup, s\<lparr>uuid_calls := Suc (uuid_calls s), time_calls := Suc (time_calls s)\<rparr>)"
  by (rule put_keyboard_without_payload)

theorem put_keyboard_no_payload_witness:
  "\<not> has_payload example_plain_markup \<and>
   put_keyboard example_env example_empty_state example_plain_markup =
     (Inr example_plain_markup,
      example_empty_state\<lparr>uuid_calls := Suc (uuid_calls example_empty_state),
                          time_calls := Suc (time_calls example_empty_state)\<rparr>)"
proof -
  have h: "\<not> has_payload example_plain_markup" by code_simp
  from put_keyboard_no_payload [OF h, of example_env example_empty_state] h
  show ?thesis by simp
qed

text \<open>
  The claim as stated says that no keyboard identifier is allocated. On the example
  keyboard, which has no payload, the count of identifiers drawn goes from 0 to 1.
\<close>

theorem put_keyboard_no_payload_draws_identifier:
  "\<not> has_payload example_plain_markup \<and>
   uuid_calls example_empty_state = 0 \<and>
   uuid_calls (snd (put_keyboard example_env example_empty_state example_plain_markup)) = 1"
  by code_simp

section \<open>The token codec\<close>

text \<open>
  C9. Decoding the token built from a keyboard identifier of the generator's width (32
  characters) and any button identifier gives back exactly that pair.
\<close>

theorem extract_uuids_encode:
  "length k = 32 \<Longrightarrow> extract_uuids (encode k b) = (k, b)"
  by (simp add: extract_uuids_def encode_def)

theorem extract_uuids_encode_witness:
  "length ''0123456789abcdef0123456789abcdef'' = 32 \<and>
   extract_uuids (encode ''0123456789abcdef0123456789abcdef'' ''fedcba9876543210fedcba9876543210'')
     = (''0123456789abcdef0123456789abcdef'', ''fedcba9876543210fedcba9876543210'')"
  using extract_uuids_encode [of "''0123456789abcdef0123456789abcdef''" "''fedcba9876543210fedcba9876543210''"]
  by simp

end
